theory Spec2Isabelle
  imports Main "HOL-Library.Multiset" "HOL-Library.Sublist" "HOL-Library.AList"
begin

section \<open>Values of the JavaScript runtime\<close>

text \<open>
  The server (\<^verbatim>\<open>server.js\<close>) handles whatever \<^verbatim>\<open>JSON.parse\<close> returns: log entries are
  duck-typed. A JSON value is modelled as a datatype; numbers are integers (fractional
  numerals are not modelled), an object is the list of its properties.
  \<^verbatim>\<open>undefined\<close> is \<open>None\<close> of \<open>json option\<close>.
\<close>

datatype json =
    JNull
  | JBool bool
  | JNum int
  | JStr string
  | JArr "json list"
  | JObj "(string \<times> json) list"

datatype exn = TypeError | SyntaxError | IOError

text \<open>
  Three functions of the runtime are parameters of the model: \<^verbatim>\<open>Date.parse\<close> on strings,
  the conversion of an array or object to a primitive (\<^verbatim>\<open>ToPrimitive\<close>: the string it
  converts to, or a thrown \<^verbatim>\<open>TypeError\<close>, as for an object whose \<^verbatim>\<open>toString\<close> and
  \<^verbatim>\<open>valueOf\<close> are not functions), and \<^verbatim>\<open>JSON.parse\<close> on the characters of a string.
  \<open>None\<close> is \<^verbatim>\<open>NaN\<close> for \<open>Date_parse\<close> and a thrown \<^verbatim>\<open>SyntaxError\<close> for
  \<open>JSON_parse\<close>.
\<close>

record runtime =
  Date_parse :: "string \<Rightarrow> int option"
  ToPrimitive :: "json \<Rightarrow> exn + string"
  JSON_parse :: "string \<Rightarrow> json option"

text \<open>
  Property access \<^verbatim>\<open>v.k\<close> for the property names the server reads (\<^verbatim>\<open>timestamp\<close>,
  \<^verbatim>\<open>logData\<close>, \<^verbatim>\<open>fileName\<close>): it throws on \<^verbatim>\<open>null\<close>, looks the property up in an
  object, and is \<^verbatim>\<open>undefined\<close> on numbers, booleans, strings and arrays.
\<close>

fun get_prop :: "json \<Rightarrow> string \<Rightarrow> exn + json option" where
  "get_prop JNull k = Inl TypeError"
| "get_prop (JObj kvs) k = Inr (map_of kvs k)"
| "get_prop v k = Inr None"

definition timestamp :: "json \<Rightarrow> exn + json option" where
  "timestamp v = get_prop v ''timestamp''"

text \<open>\<^verbatim>\<open>!v\<close>: the falsy values among \<^verbatim>\<open>undefined\<close> and the JSON values.\<close>

fun falsy :: "json option \<Rightarrow> bool" where
  "falsy None = True"
| "falsy (Some JNull) = True"
| "falsy (Some (JBool b)) = (\<not> b)"
| "falsy (Some (JNum n)) = (n = 0)"
| "falsy (Some (JStr s)) = (s = [])"
| "falsy (Some v) = False"

text \<open>
  The time value of \<^verbatim>\<open>new Date(v)\<close> in milliseconds since the epoch; \<open>None\<close> is
  \<^verbatim>\<open>Invalid Date\<close> (time value \<^verbatim>\<open>NaN\<close>). The constructor throws when the conversion
  of an array or object to a primitive does.
\<close>

definition TimeClip :: "int \<Rightarrow> int option" where
  "TimeClip t = (if \<bar>t\<bar> \<le> 8640000000000000 then Some t else None)"

fun Date :: "runtime \<Rightarrow> json option \<Rightarrow> exn + int option" where
  "Date rt None = Inr None"
| "Date rt (Some JNull) = Inr (Some 0)"
| "Date rt (Some (JBool b)) = Inr (Some (if b then 1 else 0))"
| "Date rt (Some (JNum n)) = Inr (TimeClip n)"
| "Date rt (Some (JStr s)) = Inr (Date_parse rt s)"
| "Date rt (Some v) = (case ToPrimitive rt v of Inl e \<Rightarrow> Inl e | Inr s \<Rightarrow> Inr (Date_parse rt s))"

text \<open>\<^verbatim>\<open>a < b\<close> and \<^verbatim>\<open>a - b\<close> on dates: a comparison with \<^verbatim>\<open>NaN\<close> is false, a
  difference with \<^verbatim>\<open>NaN\<close> is \<^verbatim>\<open>NaN\<close>.\<close>

fun date_lt :: "int option \<Rightarrow> int option \<Rightarrow> bool" where
  "date_lt (Some a) (Some b) = (a < b)"
| "date_lt a b = False"

fun date_minus :: "int option \<Rightarrow> int option \<Rightarrow> int option" where
  "date_minus (Some a) (Some b) = Some (a - b)"
| "date_minus a b = None"

section \<open>Strings and paths\<close>

definition startsWith :: "string \<Rightarrow> string \<Rightarrow> bool" where
  "startsWith s p = prefix p s"

definition endsWith :: "string \<Rightarrow> string \<Rightarrow> bool" where
  "endsWith s p = suffix p s"

text \<open>\<^verbatim>\<open>fileName.replace(/[^a-zA-Z0-9_-]/g, '_')\<close>\<close>

definition word_char :: "char \<Rightarrow> bool" where
  "word_char c = (let n = (of_char c :: nat) in
     (97 \<le> n \<and> n \<le> 122) \<or> (65 \<le> n \<and> n \<le> 90) \<or> (48 \<le> n \<and> n \<le> 57)
     \<or> c = CHR ''_'' \<or> c = CHR ''-'')"

definition sanitize :: "string \<Rightarrow> string" where
  "sanitize fileName = map (\<lambda>c. if word_char c then c else CHR ''_'') fileName"

text \<open>
  \<^verbatim>\<open>path.join\<close> of Node.js on POSIX: the arguments are joined with \<^verbatim>\<open>/\<close> and the
  result is normalised, segment by segment: empty segments and \<^verbatim>\<open>.\<close> are dropped,
  \<^verbatim>\<open>..\<close> removes the segment before it (above the root it is dropped in an absolute path
  and kept in a relative one).
\<close>

fun split_sep :: "string \<Rightarrow> string list" where
  "split_sep [] = [[]]"
| "split_sep (c # cs) =
     (let r = split_sep cs in if c = CHR ''/'' then [] # r else (c # hd r) # tl r)"

fun join_sep :: "string list \<Rightarrow> string" where
  "join_sep [] = []"
| "join_sep [s] = s"
| "join_sep (s # t # ss) = s @ ''/'' @ join_sep (t # ss)"

fun normalizeString :: "bool \<Rightarrow> string list \<Rightarrow> string list \<Rightarrow> string list" where
  "normalizeString allowAboveRoot res [] = res"
| "normalizeString allowAboveRoot res (s # ss) =
     (if s = [] \<or> s = ''.'' then normalizeString allowAboveRoot res ss
      else if s = ''..'' then
        (if res \<noteq> [] \<and> last res \<noteq> ''..'' then normalizeString allowAboveRoot (butlast res) ss
         else if allowAboveRoot then normalizeString allowAboveRoot (res @ [''..'']) ss
         else normalizeString allowAboveRoot res ss)
      else normalizeString allowAboveRoot (res @ [s]) ss)"

definition isAbsolute :: "string \<Rightarrow> bool" where
  "isAbsolute path = (path \<noteq> [] \<and> hd path = CHR ''/'')"

definition normalize_path :: "string \<Rightarrow> string" where
  "normalize_path path =
     (if path = [] then ''.''
      else
        let trailingSeparator = (last path = CHR ''/'');
            p = join_sep (normalizeString (\<not> isAbsolute path) [] (split_sep path))
        in if p = [] then (if isAbsolute path then ''/'' else if trailingSeparator then ''./'' else ''.'')
           else (if isAbsolute path then ''/'' else []) @ p @ (if trailingSeparator then ''/'' else []))"

definition path_join :: "string \<Rightarrow> string \<Rightarrow> string" where
  "path_join a b =
     (if a = [] \<and> b = [] then ''.''
      else if a = [] then normalize_path b
      else if b = [] then normalize_path a
      else normalize_path (a @ ''/'' @ b))"

text \<open>\<^verbatim>\<open>const logDir = path.join(__dirname, 'log')\<close>\<close>

definition logDir :: "string \<Rightarrow> string" where
  "logDir dirname = path_join dirname ''log''"

section \<open>The file system\<close>

text \<open>
  A file's characters are represented by what \<^verbatim>\<open>JSON.parse\<close> makes of them: \<open>Json v\<close>
  is the text \<^verbatim>\<open>JSON.stringify(v, null, 2)\<close> (or any other serialisation of \<open>v\<close>),
  \<open>Garbage\<close> is a text that \<^verbatim>\<open>JSON.parse\<close> rejects. A node of the file system says,
  besides its content, whether reading, writing and unlinking it succeed (a directory named
  \<^verbatim>\<open>x.json\<close>, a file without permissions). The file system is the list of its nodes by
  absolute path, in the order in which a directory listing enumerates them.
\<close>

datatype content = Json json | Garbage

record node =
  readable :: bool
  writable :: bool
  removable :: bool
  content :: content

type_synonym filesystem = "(string \<times> node) list"

definition existsSync :: "filesystem \<Rightarrow> string \<Rightarrow> bool" where
  "existsSync fs path = (map_of fs path \<noteq> None)"

definition readFileSync :: "filesystem \<Rightarrow> string \<Rightarrow> exn + content" where
  "readFileSync fs path =
     (case map_of fs path of
        None \<Rightarrow> Inl IOError
      | Some n \<Rightarrow> if readable n then Inr (content n) else Inl IOError)"

definition unlinkSync :: "filesystem \<Rightarrow> string \<Rightarrow> exn + filesystem" where
  "unlinkSync fs path =
     (case map_of fs path of
        None \<Rightarrow> Inl IOError
      | Some n \<Rightarrow> if removable n then Inr (filter (\<lambda>e. fst e \<noteq> path) fs) else Inl IOError)"

text \<open>Writing replaces the text of an existing node and creates a missing one, as a
  regular file, at the end of the enumeration.\<close>

definition writeFileSync :: "filesystem \<Rightarrow> string \<Rightarrow> content \<Rightarrow> exn + filesystem" where
  "writeFileSync fs path t =
     (case map_of fs path of
        None \<Rightarrow> Inr (fs @ [(path, \<lparr>readable = True, writable = True, removable = True, content = t\<rparr>)])
      | Some n \<Rightarrow> if writable n then Inr (AList.update path (n\<lparr>content := t\<rparr>) fs) else Inl IOError)"

text \<open>The names directly inside a directory. The log directory itself is created when
  the server starts (lines 9-12) and is taken to exist and to be listable throughout.\<close>

definition child_name :: "string \<Rightarrow> string \<Rightarrow> string option" where
  "child_name dir path =
     (if startsWith path (dir @ ''/'') then
        (let name = drop (length dir + 1) path
         in if name \<noteq> [] \<and> CHR ''/'' \<notin> set name then Some name else None)
      else None)"

definition readdirSync :: "filesystem \<Rightarrow> string \<Rightarrow> string list" where
  "readdirSync fs dir = List.map_filter (child_name dir) (map fst fs)"

definition JSON_parse_text :: "content \<Rightarrow> exn + json" where
  "JSON_parse_text t = (case t of Json v \<Rightarrow> Inr v | Garbage \<Rightarrow> Inl SyntaxError)"

section \<open>The server's state\<close>

datatype log_line =
    CleanupDeleted string "json option"
  | CleanupError string
  | CleanupComplete nat
  | LoadError string
  | LoadFailed
  | SchedulerRun
  | ManualCleanup
  | ServerError exn

record server =
  fs :: filesystem
  allLogs :: "json list"
  console :: "log_line list"

section \<open>cleanupOldLogs\<close>

text \<open>The callback of \<^verbatim>\<open>logArray.reduce\<close> (lines 44-48).\<close>

definition older :: "runtime \<Rightarrow> json \<Rightarrow> json \<Rightarrow> exn + json" where
  "older rt oldest current =
     (case timestamp current of
        Inl e \<Rightarrow> Inl e
      | Inr ct \<Rightarrow>
     (case Date rt ct of
        Inl e \<Rightarrow> Inl e
      | Inr currentTime \<Rightarrow>
     (case timestamp oldest of
        Inl e \<Rightarrow> Inl e
      | Inr ot \<Rightarrow>
     (case Date rt ot of
        Inl e \<Rightarrow> Inl e
      | Inr oldestTime \<Rightarrow> Inr (if date_lt currentTime oldestTime then current else oldest)))))"

text \<open>\<^verbatim>\<open>Array.prototype.reduce\<close> without an initial value: the accumulator starts as the
  first element; on an empty array it throws.\<close>

fun reduce_from :: "('a \<Rightarrow> 'a \<Rightarrow> exn + 'a) \<Rightarrow> 'a \<Rightarrow> 'a list \<Rightarrow> exn + 'a" where
  "reduce_from f acc [] = Inr acc"
| "reduce_from f acc (x # xs) =
     (case f acc x of Inl e \<Rightarrow> Inl e | Inr acc' \<Rightarrow> reduce_from f acc' xs)"

definition reduce :: "('a \<Rightarrow> 'a \<Rightarrow> exn + 'a) \<Rightarrow> 'a list \<Rightarrow> exn + 'a" where
  "reduce f xs = (case xs of [] \<Rightarrow> Inl TypeError | x # xs' \<Rightarrow> reduce_from f x xs')"

text \<open>\<^verbatim>\<open>Array.isArray(logs) ? logs : [logs]\<close>\<close>

definition logArray_of :: "json \<Rightarrow> json list" where
  "logArray_of logs = (case logs of JArr xs \<Rightarrow> xs | _ \<Rightarrow> [logs])"

text \<open>\<^verbatim>\<open>7 * 24 * 60 * 60 * 1000\<close> milliseconds before \<open>now\<close>, the time value of the clock.\<close>

definition sevenDaysAgo :: "int \<Rightarrow> int" where
  "sevenDaysAgo now = now - 7 * 24 * 60 * 60 * 1000"

text \<open>
  The body of the inner \<^verbatim>\<open>try\<close> (lines 36-59) for one file: the file system after it and
  the timestamp of the oldest log if the file was deleted, or the exception that the
  \<^verbatim>\<open>catch\<close> of line 60 receives.
\<close>

definition process_file :: "runtime \<Rightarrow> int \<Rightarrow> filesystem \<Rightarrow> string \<Rightarrow> exn + filesystem \<times> json option option" where
  "process_file rt now files filePath =
     (case readFileSync files filePath of
        Inl e \<Rightarrow> Inl e
      | Inr fileContent \<Rightarrow>
     (case JSON_parse_text fileContent of
        Inl e \<Rightarrow> Inl e
      | Inr logs \<Rightarrow>
     (let logArray = logArray_of logs in
      if length logArray > 0 then
        (case reduce (older rt) logArray of
           Inl e \<Rightarrow> Inl e
         | Inr oldestLog \<Rightarrow>
        (case timestamp oldestLog of
           Inl e \<Rightarrow> Inl e
         | Inr ts \<Rightarrow>
        (case Date rt ts of
           Inl e \<Rightarrow> Inl e
         | Inr oldestTime \<Rightarrow>
            if date_lt oldestTime (Some (sevenDaysAgo now)) then
              (case unlinkSync files filePath of
                 Inl e \<Rightarrow> Inl e
               | Inr files' \<Rightarrow> Inr (files', Some ts))
            else Inr (files, None))))
      else Inr (files, None))))"

record cleanup_acc =
  state :: server
  deletedCount :: nat
  deletedFiles :: "string list"

text \<open>The callback of \<^verbatim>\<open>files.forEach\<close> (lines 32-64).\<close>

definition cleanup_file :: "runtime \<Rightarrow> int \<Rightarrow> string \<Rightarrow> cleanup_acc \<Rightarrow> string \<Rightarrow> cleanup_acc" where
  "cleanup_file rt now dir acc file =
     (if endsWith file ''.json'' then
        (case process_file rt now (fs (state acc)) (path_join dir file) of
           Inl e \<Rightarrow> acc\<lparr>state := (state acc)\<lparr>console := console (state acc) @ [CleanupError file]\<rparr>\<rparr>
         | Inr (files', None) \<Rightarrow> acc
         | Inr (files', Some ts) \<Rightarrow>
             \<lparr>state = (state acc)\<lparr>fs := files',
                  console := console (state acc) @ [CleanupDeleted file ts]\<rparr>,
              deletedCount = deletedCount acc + 1,
              deletedFiles = deletedFiles acc @ [file]\<rparr>)
      else acc)"

text \<open>The summary object that \<^verbatim>\<open>cleanupOldLogs\<close> returns (\<^verbatim>\<open>success: true\<close>).\<close>

record summary =
  deleted_count :: nat
  deleted_files :: "string list"

definition cleanupOldLogs :: "runtime \<Rightarrow> int \<Rightarrow> string \<Rightarrow> server \<Rightarrow> server \<times> summary" where
  "cleanupOldLogs rt now dirname st =
     (let dir = logDir dirname;
          acc = foldl (cleanup_file rt now dir)
                  \<lparr>state = st, deletedCount = 0, deletedFiles = []\<rparr>
                  (readdirSync (fs st) dir)
      in ((state acc)\<lparr>console := console (state acc) @ [CleanupComplete (deletedCount acc)]\<rparr>,
          \<lparr>deleted_count = deletedCount acc, deleted_files = deletedFiles acc\<rparr>))"

section \<open>loadLogsFromFiles\<close>

text \<open>
  \<^verbatim>\<open>Array.prototype.sort\<close> with a comparator. The sort is stable and, for a comparator
  that orders the elements consistently, its result does not depend on the algorithm;
  it is modelled as a stable insertion sort. A comparator result \<^verbatim>\<open>NaN\<close> (\<open>None\<close>)
  counts as \<open>0\<close>; an exception of the comparator leaves the sort. (When the comparator
  is not consistent, which \<^verbatim>\<open>NaN\<close> results cause, the order is implementation-defined
  and the model gives the insertion sort's.)
\<close>

definition sort_order :: "int option \<Rightarrow> int" where
  "sort_order v = (case v of None \<Rightarrow> 0 | Some n \<Rightarrow> n)"

fun sort_insert :: "('a \<Rightarrow> 'a \<Rightarrow> exn + int option) \<Rightarrow> 'a \<Rightarrow> 'a list \<Rightarrow> exn + 'a list" where
  "sort_insert cmp x [] = Inr [x]"
| "sort_insert cmp x (y # ys) =
     (case cmp x y of
        Inl e \<Rightarrow> Inl e
      | Inr v \<Rightarrow>
          if sort_order v \<le> 0 then Inr (x # y # ys)
          else (case sort_insert cmp x ys of Inl e \<Rightarrow> Inl e | Inr r \<Rightarrow> Inr (y # r)))"

fun array_sort :: "('a \<Rightarrow> 'a \<Rightarrow> exn + int option) \<Rightarrow> 'a list \<Rightarrow> exn + 'a list" where
  "array_sort cmp [] = Inr []"
| "array_sort cmp (x # xs) =
     (case array_sort cmp xs of Inl e \<Rightarrow> Inl e | Inr ys \<Rightarrow> sort_insert cmp x ys)"

text \<open>\<^verbatim>\<open>(a, b) => new Date(b.timestamp) - new Date(a.timestamp)\<close> (line 110)\<close>

definition load_cmp :: "runtime \<Rightarrow> json \<Rightarrow> json \<Rightarrow> exn + int option" where
  "load_cmp rt a b =
     (case timestamp b of
        Inl e \<Rightarrow> Inl e
      | Inr tb \<Rightarrow>
     (case Date rt tb of
        Inl e \<Rightarrow> Inl e
      | Inr bTime \<Rightarrow>
     (case timestamp a of
        Inl e \<Rightarrow> Inl e
      | Inr ta \<Rightarrow>
     (case Date rt ta of
        Inl e \<Rightarrow> Inl e
      | Inr aTime \<Rightarrow> Inr (date_minus bTime aTime)))))"

text \<open>The callback of \<^verbatim>\<open>files.forEach\<close> (lines 90-107).\<close>

definition load_file :: "string \<Rightarrow> server \<Rightarrow> string \<Rightarrow> server" where
  "load_file dir st file =
     (if endsWith file ''.json'' then
        (case readFileSync (fs st) (path_join dir file) of
           Inl e \<Rightarrow> st\<lparr>console := console st @ [LoadError file]\<rparr>
         | Inr fileContent \<Rightarrow>
        (case JSON_parse_text fileContent of
           Inl e \<Rightarrow> st\<lparr>console := console st @ [LoadError file]\<rparr>
         | Inr logs \<Rightarrow>
            (case logs of
               JArr xs \<Rightarrow> st\<lparr>allLogs := allLogs st @ xs\<rparr>
             | JObj kvs \<Rightarrow> st\<lparr>allLogs := allLogs st @ [logs]\<rparr>
             | _ \<Rightarrow> st)))
      else st)"

text \<open>An exception of the sort reaches the outer \<^verbatim>\<open>catch\<close> (line 112), and the array
  stays as it was filled.\<close>

definition loadLogsFromFiles :: "runtime \<Rightarrow> string \<Rightarrow> server \<Rightarrow> server" where
  "loadLogsFromFiles rt dirname st =
     (let dir = logDir dirname;
          st1 = foldl (load_file dir) (st\<lparr>allLogs := []\<rparr>) (readdirSync (fs st) dir)
      in case array_sort (load_cmp rt) (allLogs st1) of
           Inl e \<Rightarrow> st1\<lparr>console := console st1 @ [LoadFailed]\<rparr>
         | Inr sortedLogs \<Rightarrow> st1\<lparr>allLogs := sortedLogs\<rparr>)"

section \<open>The HTTP handlers\<close>

datatype body = JsonBody json | FileBody content

record response =
  status :: nat
  body :: body

definition error_response :: "nat \<Rightarrow> string \<Rightarrow> response" where
  "error_response code msg = \<lparr>status = code, body = JsonBody (JObj [(''error'', JStr msg)])\<rparr>"

text \<open>The \<^verbatim>\<open>catch\<close> around all handlers (lines 403-407).\<close>

definition server_error :: "exn \<Rightarrow> server \<Rightarrow> response \<times> server" where
  "server_error e st =
     (error_response 500 ''Internal server error'', st\<lparr>console := console st @ [ServerError e]\<rparr>)"

text \<open>\<^verbatim>\<open>GET /api/logs\<close> (lines 188-192)\<close>

definition get_logs :: "server \<Rightarrow> response \<times> server" where
  "get_logs st = (\<lparr>status = 200, body = JsonBody (JArr (allLogs st))\<rparr>, st)"

text \<open>\<^verbatim>\<open>GET /api/logs/list\<close> (lines 195-205)\<close>

definition get_list :: "string \<Rightarrow> server \<Rightarrow> response \<times> server" where
  "get_list dirname st =
     (let logFiles = filter (\<lambda>f. endsWith f ''.json'') (readdirSync (fs st) (logDir dirname))
      in (\<lparr>status = 200,
           body = JsonBody (JObj [(''success'', JBool True),
                                  (''count'', JNum (int (length logFiles))),
                                  (''files'', JArr (map JStr logFiles))])\<rparr>, st))"

text \<open>\<^verbatim>\<open>GET /api/logs/:fileName\<close>, the block of lines 211-230.\<close>

definition get_file :: "string \<Rightarrow> string \<Rightarrow> server \<Rightarrow> response \<times> server" where
  "get_file dirname fileName st =
     (let sanitizedFileName = sanitize fileName;
          filePath = path_join (logDir dirname) (sanitizedFileName @ ''.json'')
      in if \<not> startsWith filePath (logDir dirname) then (error_response 403 ''Access denied'', st)
         else if \<not> existsSync (fs st) filePath then (error_response 404 ''Log file not found'', st)
         else (case readFileSync (fs st) filePath of
                 Inl e \<Rightarrow> server_error e st
               | Inr fileContent \<Rightarrow> (\<lparr>status = 200, body = FileBody fileContent\<rparr>, st)))"

text \<open>
  The routes of a \<^verbatim>\<open>GET\<close> request in the order of the source. \<open>None\<close>: the request
  is not answered by the log API and falls through to the static files and the final
  \<^verbatim>\<open>404\<close>.
\<close>

definition handle_GET :: "string \<Rightarrow> string \<Rightarrow> server \<Rightarrow> (response \<times> server) option" where
  "handle_GET dirname pathname st =
     (if pathname = ''/api/logs'' then Some (get_logs st)
      else if pathname = ''/api/logs/list'' then Some (get_list dirname st)
      else if startsWith pathname ''/api/logs/'' then
        (let fileName = drop (length ''/api/logs/'') pathname
         in if fileName \<noteq> [] \<and> fileName \<noteq> ''list'' then Some (get_file dirname fileName st)
            else None)
      else None)"

text \<open>
  \<^verbatim>\<open>url.parse(req.url, true).pathname\<close> (lines 171-172) for a request URL that is a path
  with an optional query and fragment: the characters before the first \<^verbatim>\<open>?\<close> or \<^verbatim>\<open>#\<close>.
  (What \<^verbatim>\<open>url.parse\<close> does to white space, backslashes and the characters it escapes
  is not modelled; a request URL with such characters is outside the model.) A \<^verbatim>\<open>GET\<close>
  request with the given URL is then routed by its pathname.
\<close>

definition url_pathname :: "string \<Rightarrow> string" where
  "url_pathname url = takeWhile (\<lambda>c. c \<noteq> CHR ''?'' \<and> c \<noteq> CHR ''#'') url"

definition request_GET :: "string \<Rightarrow> string \<Rightarrow> server \<Rightarrow> (response \<times> server) option" where
  "request_GET dirname url st = handle_GET dirname (url_pathname url) st"

text \<open>\<^verbatim>\<open>(a, b) => new Date(b.timestamp || 0).getTime() - new Date(a.timestamp || 0).getTime()\<close>
  (lines 271-275)\<close>

definition or_zero :: "json option \<Rightarrow> json option" where
  "or_zero v = (if falsy v then Some (JNum 0) else v)"

definition save_cmp :: "runtime \<Rightarrow> json \<Rightarrow> json \<Rightarrow> exn + int option" where
  "save_cmp rt a b =
     (case timestamp a of
        Inl e \<Rightarrow> Inl e
      | Inr ta \<Rightarrow>
     (case Date rt (or_zero ta) of
        Inl e \<Rightarrow> Inl e
      | Inr aTime \<Rightarrow>
     (case timestamp b of
        Inl e \<Rightarrow> Inl e
      | Inr tb \<Rightarrow>
     (case Date rt (or_zero tb) of
        Inl e \<Rightarrow> Inl e
      | Inr bTime \<Rightarrow> Inr (date_minus bTime aTime)))))"

text \<open>Lines 254-261.\<close>

definition dataToSave_of :: "runtime \<Rightarrow> json \<Rightarrow> json" where
  "dataToSave_of rt logData =
     (case logData of
        JStr s \<Rightarrow> (case JSON_parse rt s of Some v \<Rightarrow> v | None \<Rightarrow> JObj [(''raw'', JStr s)])
      | _ \<Rightarrow> logData)"

text \<open>The entries that a save pushes onto \<^verbatim>\<open>allLogs\<close> (lines 265-269).\<close>

definition pushed_entries :: "json \<Rightarrow> json list" where
  "pushed_entries dataToSave = (case dataToSave of JArr xs \<Rightarrow> xs | _ \<Rightarrow> [dataToSave])"

text \<open>
  \<^verbatim>\<open>POST /api/logs/save\<close> (lines 235-288) on the parsed request body. A \<open>fileName\<close>
  that is not a string has no \<^verbatim>\<open>replace\<close> method, and the call throws. When the sort
  throws, the file is written and the array holds the pushed entries.
\<close>

definition save :: "runtime \<Rightarrow> int \<Rightarrow> string \<Rightarrow> json \<Rightarrow> server \<Rightarrow> response \<times> server" where
  "save rt now dirname reqBody st =
     (case get_prop reqBody ''logData'' of
        Inl e \<Rightarrow> server_error e st
      | Inr logData \<Rightarrow>
     (case get_prop reqBody ''fileName'' of
        Inl e \<Rightarrow> server_error e st
      | Inr fileName \<Rightarrow>
        if falsy logData then (error_response 400 ''logData is required'', st)
        else if falsy fileName then (error_response 400 ''fileName is required'', st)
        else
          (case (logData, fileName) of
             (Some logData', Some (JStr name)) \<Rightarrow>
               (let sanitizedFileName = sanitize name;
                    filePath = path_join (logDir dirname) (sanitizedFileName @ ''.json'');
                    dataToSave = dataToSave_of rt logData'
                in case writeFileSync (fs st) filePath (Json dataToSave) of
                     Inl e \<Rightarrow> server_error e st
                   | Inr files' \<Rightarrow>
                       (let pushed = allLogs st @ pushed_entries dataToSave
                        in case array_sort (save_cmp rt) pushed of
                             Inl e \<Rightarrow> server_error e (st\<lparr>fs := files', allLogs := pushed\<rparr>)
                           | Inr sortedLogs \<Rightarrow>
                               (\<lparr>status = 200,
                                 body = JsonBody (JObj [(''success'', JBool True),
                                          (''message'', JStr ''Log saved successfully''),
                                          (''filePath'', JStr filePath),
                                          (''fileName'', JStr (sanitizedFileName @ ''.json''))])\<rparr>,
                                fst (cleanupOldLogs rt now dirname (st\<lparr>fs := files', allLogs := sortedLogs\<rparr>)))))
           | _ \<Rightarrow> server_error TypeError st)))"

text \<open>\<^verbatim>\<open>DELETE /api/logs/:fileName\<close> (lines 291-318)\<close>

definition delete_file :: "runtime \<Rightarrow> string \<Rightarrow> string \<Rightarrow> server \<Rightarrow> response \<times> server" where
  "delete_file rt dirname fileName st =
     (let sanitizedFileName = sanitize fileName;
          filePath = path_join (logDir dirname) (sanitizedFileName @ ''.json'')
      in if \<not> startsWith filePath (logDir dirname) then (error_response 403 ''Access denied'', st)
         else if \<not> existsSync (fs st) filePath then (error_response 404 ''Log file not found'', st)
         else (case unlinkSync (fs st) filePath of
                 Inl e \<Rightarrow> server_error e st
               | Inr files' \<Rightarrow>
                   (\<lparr>status = 200,
                     body = JsonBody (JObj [(''success'', JBool True),
                              (''message'', JStr ''Log file deleted successfully'')])\<rparr>,
                    loadLogsFromFiles rt dirname (st\<lparr>fs := files'\<rparr>))))"

definition handle_DELETE :: "runtime \<Rightarrow> string \<Rightarrow> string \<Rightarrow> server \<Rightarrow> (response \<times> server) option" where
  "handle_DELETE rt dirname pathname st =
     (if startsWith pathname ''/api/logs/''
      then Some (delete_file rt dirname (drop (length ''/api/logs/'') pathname) st)
      else None)"

text \<open>\<^verbatim>\<open>POST /api/logs/cleanup\<close> (lines 321-329)\<close>

definition cleanup :: "runtime \<Rightarrow> int \<Rightarrow> string \<Rightarrow> server \<Rightarrow> response \<times> server" where
  "cleanup rt now dirname st =
     (let (st1, cleanupResult) = cleanupOldLogs rt now dirname (st\<lparr>console := console st @ [ManualCleanup]\<rparr>)
      in (\<lparr>status = 200,
           body = JsonBody (JObj [(''success'', JBool True),
                    (''deletedCount'', JNum (int (deleted_count cleanupResult))),
                    (''deletedFiles'', JArr (map JStr (deleted_files cleanupResult)))])\<rparr>,
          loadLogsFromFiles rt dirname st1))"



section \<open>A concrete runtime\<close>

text \<open>
  For evaluating the server on concrete inputs: \<^verbatim>\<open>Date.parse\<close> on the date-time format
  of ECMAScript in UTC, \<^verbatim>\<open>YYYY-MM-DDTHH:mm:ssZ\<close> and \<^verbatim>\<open>YYYY-MM-DDTHH:mm:ss.sssZ\<close> (what
  \<^verbatim>\<open>toISOString\<close> produces), every other string being an invalid date; the string of
  a plain object; no string of a request taken as JSON text. The concrete inputs below
  use neither arrays or objects as timestamps nor strings as \<^verbatim>\<open>logData\<close>.
\<close>

definition digit :: "char \<Rightarrow> nat option" where
  "digit c = (let n = (of_char c :: nat) in if 48 \<le> n \<and> n \<le> 57 then Some (n - 48) else None)"

fun number_from :: "nat \<Rightarrow> string \<Rightarrow> nat option" where
  "number_from acc [] = Some acc"
| "number_from acc (c # cs) =
     (case digit c of None \<Rightarrow> None | Some d \<Rightarrow> number_from (10 * acc + d) cs)"

definition field :: "string \<Rightarrow> nat \<Rightarrow> nat \<Rightarrow> nat option" where
  "field s i n = number_from 0 (take n (drop i s))"

definition leap_year :: "nat \<Rightarrow> bool" where
  "leap_year y = (y mod 4 = 0 \<and> (y mod 100 \<noteq> 0 \<or> y mod 400 = 0))"

definition days_in_month :: "nat \<Rightarrow> nat \<Rightarrow> nat" where
  "days_in_month y m =
     (if m = 2 then (if leap_year y then 29 else 28)
      else if m = 4 \<or> m = 6 \<or> m = 9 \<or> m = 11 then 30 else 31)"

text \<open>The number of days from 1970-01-01 to the given day of the civil calendar.\<close>

definition days_from_civil :: "nat \<Rightarrow> nat \<Rightarrow> nat \<Rightarrow> int" where
  "days_from_civil y m d =
     (let y' = (if m \<le> 2 then int y - 1 else int y);
          era = y' div 400;
          yoe = y' - era * 400;
          mp = (int m + 9) mod 12;
          doy = (153 * mp + 2) div 5 + int d - 1;
          doe = yoe * 365 + yoe div 4 - yoe div 100 + doy
      in era * 146097 + doe - 719468)"

definition iso_parse :: "string \<Rightarrow> int option" where
  "iso_parse s =
     (if (length s = 20 \<or> length s = 24 \<and> s ! 19 = CHR ''.'')
         \<and> s ! 4 = CHR ''-'' \<and> s ! 7 = CHR ''-'' \<and> s ! 10 = CHR ''T''
         \<and> s ! 13 = CHR '':'' \<and> s ! 16 = CHR '':'' \<and> last s = CHR ''Z''
      then
        (case (field s 0 4, field s 5 2, field s 8 2, field s 11 2, field s 14 2, field s 17 2,
               if length s = 24 then field s 20 3 else Some 0) of
           (Some y, Some mo, Some d, Some h, Some mi, Some sec, Some ms) \<Rightarrow>
             if 1 \<le> mo \<and> mo \<le> 12 \<and> 1 \<le> d \<and> d \<le> days_in_month y mo
                \<and> h \<le> 23 \<and> mi \<le> 59 \<and> sec \<le> 59
             then Some ((((days_from_civil y mo d * 24 + int h) * 60 + int mi) * 60 + int sec) * 1000
                        + int ms)
             else None
         | _ \<Rightarrow> None)
      else None)"

definition node_rt :: runtime where
  "node_rt = \<lparr>Date_parse = iso_parse,
              ToPrimitive = (\<lambda>v. Inr ''[object Object]''),
              JSON_parse = (\<lambda>s. None)\<rparr>"

section \<open>Notions used in the statements\<close>

text \<open>A path segment that \<^verbatim>\<open>path.join\<close> keeps as it is: a name, without separator,
  other than \<^verbatim>\<open>.\<close> and \<^verbatim>\<open>..\<close>.\<close>

definition proper :: "string \<Rightarrow> bool" where
  "proper s = (s \<noteq> [] \<and> s \<noteq> ''.'' \<and> s \<noteq> ''..'' \<and> CHR ''/'' \<notin> set s)"

text \<open>The instant of a log entry, \<^verbatim>\<open>new Date(entry.timestamp)\<close>, when neither reading
  the property nor the constructor throws and the date is valid.\<close>

definition entry_time :: "runtime \<Rightarrow> json \<Rightarrow> int option" where
  "entry_time rt e =
     (case timestamp e of
        Inl x \<Rightarrow> None
      | Inr ts \<Rightarrow> (case Date rt ts of Inl x \<Rightarrow> None | Inr t \<Rightarrow> t))"

text \<open>What the sweep makes of one file, found by processing the file alone: an
  exception, \<open>Inr None\<close> (retained) or \<open>Inr (Some ts)\<close> (deleted, \<open>ts\<close> the timestamp of
  its oldest log).\<close>

definition file_verdict :: "runtime \<Rightarrow> int \<Rightarrow> node \<Rightarrow> exn + json option option" where
  "file_verdict rt now n =
     (case process_file rt now [(''f'', n)] ''f'' of
        Inl e \<Rightarrow> Inl e
      | Inr (files', d) \<Rightarrow> Inr d)"

text \<open>The file of the log directory with the given name.\<close>

definition log_path :: "string \<Rightarrow> string \<Rightarrow> string" where
  "log_path dirname file = logDir dirname @ ''/'' @ file"

text \<open>A node after the sweep has processed it alone: gone if the verdict is deletion,
  as it was otherwise.\<close>

definition after_sweep :: "runtime \<Rightarrow> int \<Rightarrow> node option \<Rightarrow> node option" where
  "after_sweep rt now x =
     (case x of
        None \<Rightarrow> None
      | Some n \<Rightarrow> (case file_verdict rt now n of Inr (Some ts) \<Rightarrow> None | _ \<Rightarrow> Some n))"

text \<open>A name as a directory listing gives it: not empty, without separator.\<close>

definition plain_name :: "string \<Rightarrow> bool" where
  "plain_name f = (f \<noteq> [] \<and> CHR ''/'' \<notin> set f)"

text \<open>Concrete data: a log entry with the given timestamp, a regular file with the given
  JSON content, and the server's directory.\<close>

definition entry_at :: "string \<Rightarrow> json" where
  "entry_at ts = JObj [(''timestamp'', JStr ts), (''userName'', JStr ''u''), (''event'', JStr ''e'')]"

definition regular_file :: "json \<Rightarrow> node" where
  "regular_file v = \<lparr>readable = True, writable = True, removable = True, content = Json v\<rparr>"

definition app_dir :: string where
  "app_dir = ''/srv/app''"

text \<open>\<^verbatim>\<open>2025-01-15T00:00:00Z\<close>\<close>

definition jan15 :: int where
  "jan15 = 1736899200000"


text \<open>An entry without timestamp, and the same two entries in both orders.\<close>

definition no_timestamp :: json where
  "no_timestamp = JObj [(''userName'', JStr ''u''), (''event'', JStr ''e'')]"

definition unparseable_first :: json where
  "unparseable_first = JArr [no_timestamp, entry_at ''2025-01-01T00:00:00Z'']"

definition unparseable_second :: json where
  "unparseable_second = JArr [entry_at ''2025-01-01T00:00:00Z'', no_timestamp]"

definition fresh_server :: "filesystem \<Rightarrow> server" where
  "fresh_server files = \<lparr>fs = files, allLogs = [], console = []\<rparr>"

text \<open>A directory with a file that is not JSON, a file that cannot be read, and a file
  with one old entry, enumerated in this order.\<close>

definition broken_dir :: filesystem where
  "broken_dir =
     [(''/srv/app/log/a.json'', \<lparr>readable = True, writable = True, removable = True, content = Garbage\<rparr>),
      (''/srv/app/log/b.json'', \<lparr>readable = False, writable = False, removable = False,
                                  content = Json (entry_at ''2025-01-01T00:00:00Z'')\<rparr>),
      (''/srv/app/log/c.json'', regular_file (JArr [entry_at ''2025-01-01T00:00:00Z'']))]"

text \<open>
  The entries of the log files on disk, as \<^verbatim>\<open>loadLogsFromFiles\<close> reads them: the
  elements of an array and a single object, file by file in the order of the listing;
  a file that cannot be read or parsed, or holds another value, has none.
\<close>

definition entries_of :: "node option \<Rightarrow> json list" where
  "entries_of x =
     (case x of
        None \<Rightarrow> []
      | Some n \<Rightarrow>
          if readable n then
            (case content n of
               Json (JArr xs) \<Rightarrow> xs
             | Json (JObj kvs) \<Rightarrow> [JObj kvs]
             | _ \<Rightarrow> [])
          else [])"

definition disk_entries :: "string \<Rightarrow> filesystem \<Rightarrow> json list" where
  "disk_entries dirname files =
     concat (map (\<lambda>f. entries_of (map_of files (path_join (logDir dirname) f)))
                 (filter (\<lambda>f. endsWith f ''.json'') (readdirSync files (logDir dirname))))"

text \<open>The sort key of an entry with a valid timestamp, for the order newest first.\<close>

definition newest_first :: "runtime \<Rightarrow> json \<Rightarrow> int" where
  "newest_first rt e = (case entry_time rt e of Some t \<Rightarrow> - t | None \<Rightarrow> 0)"

text \<open>Two log files; the entries of 2025-01-10 of both have the same timestamp.\<close>

definition two_files :: filesystem where
  "two_files =
     [(''/srv/app/log/a.json'',
         regular_file (JArr [entry_at ''2025-01-10T00:00:00Z'', entry_at ''2025-01-14T00:00:00Z''])),
      (''/srv/app/log/b.json'',
         regular_file (JObj [(''timestamp'', JStr ''2025-01-10T00:00:00Z''), (''event'', JStr ''other'')]))]"

text \<open>The request body \<^verbatim>\<open>{logData, fileName}\<close>, and two saves to the stream \<^verbatim>\<open>t\<close> on
  2025-01-15, starting with an empty log directory.\<close>

definition save_request :: "json \<Rightarrow> string \<Rightarrow> json" where
  "save_request logData fileName = JObj [(''logData'', logData), (''fileName'', JStr fileName)]"

definition first_save :: "response \<times> server" where
  "first_save = save node_rt jan15 app_dir
     (save_request (JArr [entry_at ''2025-01-14T08:00:00Z'']) ''t'') (fresh_server [])"

definition second_save :: "response \<times> server" where
  "second_save = save node_rt jan15 app_dir
     (save_request (JArr [entry_at ''2025-01-14T09:00:00Z'']) ''t'') (snd first_save)"

text \<open>Saves of an entry of 2025-01-01 on 2025-01-15: after the first save above, and
  on an empty log directory, followed by the read of the stream.\<close>

definition old_second_save :: "response \<times> server" where
  "old_second_save = save node_rt jan15 app_dir
     (save_request (JArr [entry_at ''2025-01-01T00:00:00Z'']) ''t'') (snd first_save)"







text \<open>
  A log directory for the sweep of 2025-01-15: one entry a second before the cutoff, one
  entry a second after it, an old and a recent entry, no entry, a single old entry that
  is not in an array, and an entry without timestamp followed by an old and a recent one.
\<close>

definition retention_dir :: filesystem where
  "retention_dir =
     [(''/srv/app/log/a.json'', regular_file (JArr [entry_at ''2025-01-07T23:59:59Z''])),
      (''/srv/app/log/b.json'', regular_file (JArr [entry_at ''2025-01-08T00:00:01Z''])),
      (''/srv/app/log/c.json'',
         regular_file (JArr [entry_at ''2025-01-01T00:00:00Z'', entry_at ''2025-01-14T00:00:00Z''])),
      (''/srv/app/log/d.json'', regular_file (JArr [])),
      (''/srv/app/log/e.json'', regular_file (entry_at ''2025-01-01T00:00:00Z'')),
      (''/srv/app/log/f.json'',
         regular_file (JArr [no_timestamp, entry_at ''2025-01-01T00:00:00Z'',
                             entry_at ''2025-01-14T00:00:00Z'']))]"

text \<open>A log file whose second entry has no timestamp.\<close>

definition undated_between :: filesystem where
  "undated_between =
     [(''/srv/app/log/a.json'',
         regular_file (JArr [entry_at ''2025-01-10T00:00:00Z'', no_timestamp,
                             entry_at ''2025-01-14T00:00:00Z'']))]"

text \<open>A path below the log directory.\<close>

definition inside_logDir :: "string \<Rightarrow> string \<Rightarrow> bool" where
  "inside_logDir dirname path = startsWith path (logDir dirname @ ''/'')"




section \<open>Paths inside the log directory\<close>

lemma split_sep_nonempty: "split_sep s \<noteq> []"
  by (induction s) (simp_all add: Let_def)

lemma split_sep_append: "split_sep (a @ CHR ''/'' # b) = split_sep a @ split_sep b"
  by (induction a) (simp_all add: Let_def split_sep_nonempty)

lemma split_sep_noslash: "CHR ''/'' \<notin> set s \<Longrightarrow> split_sep s = [s]"
  by (induction s) (auto simp add: Let_def)

lemma split_sep_segs: "s \<in> set (split_sep p) \<Longrightarrow> CHR ''/'' \<notin> set s"
proof (induction p arbitrary: s)
  case Nil then show ?case by simp
next
  case (Cons c p)
  obtain h t where ht: "split_sep p = h # t" using split_sep_nonempty by (cases "split_sep p") auto
  show ?case using Cons ht by (auto simp: Let_def split: if_splits)
qed

lemma join_sep_snoc: "R \<noteq> [] \<Longrightarrow> join_sep (R @ [s]) = join_sep R @ CHR ''/'' # s"
  by (induction R rule: join_sep.induct) simp_all

lemma split_join: "R \<noteq> [] \<Longrightarrow> \<forall>s \<in> set R. CHR ''/'' \<notin> set s \<Longrightarrow> split_sep (join_sep R) = R"
proof (induction R rule: join_sep.induct)
  case 1 then show ?case by simp
next
  case (2 s) then show ?case by (simp add: split_sep_noslash)
next
  case (3 s t ss)
  have "split_sep (s @ CHR ''/'' # join_sep (t # ss)) = split_sep s @ split_sep (join_sep (t # ss))"
    by (rule split_sep_append)
  then show ?case using 3 by (simp add: split_sep_noslash)
qed

lemma normalizeString_proper_id:
  "\<forall>s \<in> set R. proper s \<Longrightarrow> normalizeString a res R = res @ R"
  by (induction R arbitrary: res) (simp_all add: proper_def)

lemma normalizeString_snoc:
  "proper s \<Longrightarrow> normalizeString a res (xs @ [s]) = normalizeString a res xs @ [s]"
proof (induction xs arbitrary: res)
  case Nil then show ?case by (simp add: proper_def)
next
  case (Cons x xs)
  show ?case using Cons.prems Cons.IH[OF Cons.prems] by (cases a; simp)
qed

lemma normalizeString_abs_proper:
  "\<forall>s \<in> set res. proper s \<Longrightarrow> \<forall>s \<in> set xs. CHR ''/'' \<notin> set s \<Longrightarrow>
   \<forall>s \<in> set (normalizeString False res xs). proper s"
proof (induction xs arbitrary: res)
  case Nil then show ?case by simp
next
  case (Cons x xs)
  have bl: "\<forall>s \<in> set (butlast res). proper s" using Cons.prems(1) by (meson in_set_butlastD)
  have xs: "\<forall>s \<in> set xs. CHR ''/'' \<notin> set s" using Cons.prems(2) by simp
  have x: "CHR ''/'' \<notin> set x" using Cons.prems(2) by simp
  show ?case
  proof (cases "x = [] \<or> x = ''.''")
    case True then show ?thesis using Cons.IH[OF Cons.prems(1) xs] by auto
  next
    case False
    show ?thesis
    proof (cases "x = ''..''")
      case True
      then show ?thesis using Cons.IH[OF Cons.prems(1) xs] Cons.IH[OF bl xs] by simp
    next
      case F2: False
      have "\<forall>s \<in> set (res @ [x]). proper s" using Cons.prems(1) False F2 x by (simp add: proper_def)
      from Cons.IH[OF this xs] show ?thesis using False F2 by simp
    qed
  qed
qed


lemma join_sep_nonempty: "R \<noteq> [] \<Longrightarrow> \<forall>s \<in> set R. proper s \<Longrightarrow> join_sep R \<noteq> []"
  by (induction R rule: join_sep.induct) (simp_all add: proper_def)

lemma last_join_sep: "R \<noteq> [] \<Longrightarrow> \<forall>s \<in> set R. proper s \<Longrightarrow> last (join_sep R) \<noteq> CHR ''/''"
proof (induction R rule: join_sep.induct)
  case 1 then show ?case by simp
next
  case (2 s) then show ?case by (auto simp: proper_def) (metis last_in_set)
next
  case (3 s t ss)
  have "join_sep (t # ss) \<noteq> []" using 3 join_sep_nonempty[of "t # ss"] by simp
  then show ?case using 3 by simp
qed

lemma normalize_abs_child:
  assumes abs: "isAbsolute p" and seg: "proper seg"
  shows "normalize_path (p @ CHR ''/'' # seg) =
         CHR ''/'' # join_sep (normalizeString False [] (split_sep p) @ [seg])"
proof -
  let ?q = "p @ CHR ''/'' # seg"
  have q_abs: "isAbsolute ?q" using abs by (simp add: isAbsolute_def)
  have q_last: "last ?q \<noteq> CHR ''/''" using seg by (auto simp: proper_def) (metis last_in_set)
  have sp: "split_sep ?q = split_sep p @ [seg]"
    using seg by (simp add: split_sep_append split_sep_noslash proper_def)
  have ns: "normalizeString False [] (split_sep ?q) = normalizeString False [] (split_sep p) @ [seg]"
    by (simp add: sp normalizeString_snoc[OF seg])
  have allp: "\<forall>s \<in> set (normalizeString False [] (split_sep p) @ [seg]). proper s"
    using normalizeString_abs_proper[of "[]" "split_sep p"] split_sep_segs seg by auto
  have ne: "join_sep (normalizeString False [] (split_sep p) @ [seg]) \<noteq> []"
    by (rule join_sep_nonempty[OF _ allp]) simp
  show ?thesis
    unfolding normalize_path_def using q_abs q_last ne by (simp add: ns Let_def)
qed

lemma logDir_form:
  assumes abs: "isAbsolute dirname"
  shows "\<exists>R. R \<noteq> [] \<and> (\<forall>s \<in> set R. proper s) \<and> logDir dirname = CHR ''/'' # join_sep R"
proof -
  have lg: "proper ''log''" by (simp add: proper_def)
  have ne: "dirname \<noteq> []" using abs by (simp add: isAbsolute_def)
  let ?R = "normalizeString False [] (split_sep dirname) @ [''log'']"
  have "logDir dirname = CHR ''/'' # join_sep ?R"
    unfolding logDir_def path_join_def using ne normalize_abs_child[OF abs lg] by simp
  moreover have "\<forall>s \<in> set ?R. proper s"
    using normalizeString_abs_proper[of "[]" "split_sep dirname"] split_sep_segs lg by auto
  ultimately show ?thesis by blast
qed

lemma path_join_child:
  assumes abs: "isAbsolute dirname" and seg: "proper seg"
  shows "path_join (logDir dirname) seg = logDir dirname @ CHR ''/'' # seg"
proof -
  obtain R where R: "R \<noteq> []" "\<forall>s \<in> set R. proper s" "logDir dirname = CHR ''/'' # join_sep R"
    using logDir_form[OF abs] by blast
  have labs: "isAbsolute (logDir dirname)" using R(3) by (simp add: isAbsolute_def)
  have noslash: "\<forall>s \<in> set R. CHR ''/'' \<notin> set s" using R(2) by (simp add: proper_def)
  have "split_sep (logDir dirname) = [] # R"
    using R(3) split_join[OF R(1) noslash] by (simp add: Let_def)
  then have ns: "normalizeString False [] (split_sep (logDir dirname)) = R"
    using normalizeString_proper_id[OF R(2), of False "[]"] by simp
  have segne: "seg \<noteq> []" using seg by (simp add: proper_def)
  have "path_join (logDir dirname) seg = normalize_path (logDir dirname @ CHR ''/'' # seg)"
    unfolding path_join_def using R(3) segne by simp
  also have "\<dots> = CHR ''/'' # join_sep (R @ [seg])"
    using normalize_abs_child[OF labs seg] ns by simp
  also have "\<dots> = logDir dirname @ CHR ''/'' # seg"
    using R(3) join_sep_snoc[OF R(1)] by simp
  finally show ?thesis .
qed

lemma word_char_not_special: "word_char c \<Longrightarrow> c \<noteq> CHR ''/'' \<and> c \<noteq> CHR ''.''"
  by (auto simp: word_char_def Let_def)

lemma sanitize_chars: "c \<in> set (sanitize f) \<Longrightarrow> word_char c"
  by (auto simp: sanitize_def word_char_def Let_def)

lemma proper_sanitized: "proper (sanitize f @ ''.json'')"
proof -
  have a: "CHR ''/'' \<notin> set (sanitize f)" "CHR ''.'' \<notin> set (sanitize f)"
    using sanitize_chars word_char_not_special by blast+
  have "sanitize f @ ''.json'' \<noteq> ''.''" "sanitize f @ ''.json'' \<noteq> ''..''"
    by (cases "sanitize f"; simp; cases "tl (sanitize f)"; simp)+
  then show ?thesis using a by (simp add: proper_def)
qed

lemma proper_json_name:
  assumes "endsWith file ''.json''" "CHR ''/'' \<notin> set file"
  shows "proper file"
proof -
  obtain pre where "file = pre @ ''.json''" using assms(1) by (auto simp: endsWith_def suffix_def)
  then show ?thesis using assms(2) 
    by (cases pre; simp add: proper_def; cases "tl pre"; simp)
qed

section \<open>The sweep on one file\<close>

lemma entry_time_SomeD:
  "entry_time rt e = Some t \<Longrightarrow> \<exists>ts. timestamp e = Inr ts \<and> Date rt ts = Inr (Some t)"
  by (auto simp: entry_time_def split: sum.splits)

lemma older_valid:
  assumes "entry_time rt acc = Some a" "entry_time rt x = Some t"
  shows "older rt acc x = Inr (if t < a then x else acc)"
  using assms by (auto simp: older_def dest!: entry_time_SomeD)

lemma reduce_from_valid:
  "entry_time rt acc = Some a \<Longrightarrow> map (entry_time rt) xs = map Some ts \<Longrightarrow>
   \<exists>m. reduce_from (older rt) acc xs = Inr m \<and> entry_time rt m = Some (Min (insert a (set ts)))"
proof (induction xs arbitrary: acc a ts)
  case Nil then show ?case by simp
next
  case (Cons x xs)
  then obtain t ts' where ts: "ts = t # ts'" "entry_time rt x = Some t" "map (entry_time rt) xs = map Some ts'"
    by (cases ts) auto
  let ?acc' = "if t < a then x else acc"
  have st: "older rt acc x = Inr ?acc'" by (rule older_valid[OF Cons.prems(1) ts(2)])
  have et: "entry_time rt ?acc' = Some (min a t)" using Cons.prems(1) ts(2) by (auto simp: min_def)
  from Cons.IH[OF et ts(3)] obtain m where
    m: "reduce_from (older rt) ?acc' xs = Inr m" "entry_time rt m = Some (Min (insert (min a t) (set ts')))"
    by blast
  have "Min (insert (min a t) (set ts')) = Min (insert a (set ts))"
    unfolding ts(1) by (cases "set ts' = {}") (simp_all add: min.assoc Min_insert2 min.commute min.left_commute)
  then show ?case using st m by (simp del: Min_insert)
qed

lemma reduce_valid:
  assumes "es \<noteq> []" "map (entry_time rt) es = map Some ts"
  shows "\<exists>m. reduce (older rt) es = Inr m \<and> entry_time rt m = Some (Min (set ts))"
proof -
  obtain x xs where es: "es = x # xs" using assms(1) by (cases es) auto
  then obtain t ts' where ts: "ts = t # ts'" "entry_time rt x = Some t" "map (entry_time rt) xs = map Some ts'"
    using assms(2) by (cases ts) auto
  from reduce_from_valid[OF ts(2) ts(3)] show ?thesis by (simp add: reduce_def es ts(1))
qed

lemma process_file_verdict:
  assumes "map_of files p = Some n"
  shows "process_file rt now files p =
     (case file_verdict rt now n of
        Inl e \<Rightarrow> Inl e
      | Inr None \<Rightarrow> Inr (files, None)
      | Inr (Some ts) \<Rightarrow> Inr (filter (\<lambda>e. fst e \<noteq> p) files, Some ts))"
  using assms
  by (simp add: file_verdict_def process_file_def readFileSync_def unlinkSync_def Let_def
      split: sum.splits content.splits option.splits)

lemma process_file_missing:
  "map_of files p = None \<Longrightarrow> process_file rt now files p = Inl IOError"
  by (simp add: process_file_def readFileSync_def)

lemma file_verdict_valid:
  assumes "readable n" "removable n" "content n = Json logs"
    and "logArray_of logs \<noteq> []" "map (entry_time rt) (logArray_of logs) = map Some ts"
  shows "\<exists>ts'. file_verdict rt now n = Inr (if Min (set ts) < sevenDaysAgo now then Some ts' else None)"
proof -
  obtain m where m: "reduce (older rt) (logArray_of logs) = Inr m" "entry_time rt m = Some (Min (set ts))"
    using reduce_valid[OF assms(4,5)] by blast
  obtain tsm where tsm: "timestamp m = Inr tsm" "Date rt tsm = Inr (Some (Min (set ts)))"
    using entry_time_SomeD[OF m(2)] by blast
  show ?thesis
    using assms(1-4) m(1) tsm
    by (auto simp: file_verdict_def process_file_def readFileSync_def unlinkSync_def Let_def JSON_parse_text_def)
qed

lemma file_verdict_empty:
  assumes "content n = Json logs" "logArray_of logs = []"
  shows "file_verdict rt now n = Inr None \<or> file_verdict rt now n = Inl IOError"
  using assms
  by (auto simp: file_verdict_def process_file_def readFileSync_def Let_def JSON_parse_text_def)

section \<open>The sweep on a directory\<close>

lemma map_of_filter_fst: "map_of (filter (\<lambda>e. fst e \<noteq> p) xs) q = (if q = p then None else map_of xs q)"
  by (induction xs) auto

lemma after_sweep_idem: "after_sweep rt now (after_sweep rt now x) = after_sweep rt now x"
  by (auto simp: after_sweep_def split: option.splits sum.splits)

lemma cleanup_file_fs:
  "fs (state (cleanup_file rt now dir acc file)) = fs (state acc) \<or>
   (endsWith file ''.json'' \<and> after_sweep rt now (map_of (fs (state acc)) (path_join dir file)) = None \<and>
    fs (state (cleanup_file rt now dir acc file)) = filter (\<lambda>e. fst e \<noteq> path_join dir file) (fs (state acc)))"
proof (cases "map_of (fs (state acc)) (path_join dir file)")
  case None
  then show ?thesis by (simp add: cleanup_file_def process_file_missing)
next
  case (Some n)
  then show ?thesis
    by (auto simp: cleanup_file_def process_file_verdict after_sweep_def split: sum.splits option.splits)
qed

lemma cleanup_file_own:
  assumes "endsWith file ''.json''"
  shows "map_of (fs (state (cleanup_file rt now dir acc file))) (path_join dir file) =
         after_sweep rt now (map_of (fs (state acc)) (path_join dir file))"
proof (cases "map_of (fs (state acc)) (path_join dir file)")
  case None
  then show ?thesis using assms by (simp add: cleanup_file_def process_file_missing after_sweep_def)
next
  case (Some n)
  then show ?thesis using assms
    by (auto simp: cleanup_file_def process_file_verdict after_sweep_def map_of_filter_fst
        split: sum.splits option.splits)
qed

lemma cleanup_file_other:
  assumes "p \<noteq> path_join dir file"
  shows "map_of (fs (state (cleanup_file rt now dir acc file))) p = map_of (fs (state acc)) p"
  using cleanup_file_fs[of rt now dir acc "file"] assms
  by (auto simp: map_of_filter_fst)

lemma cleanup_file_skip:
  "\<not> endsWith file ''.json'' \<Longrightarrow> cleanup_file rt now dir acc file = acc"
  by (simp add: cleanup_file_def)

lemma cleanup_file_at:
  assumes abs: "isAbsolute dirname" and f: "plain_name file" and f0: "plain_name file0"
  shows "map_of (fs (state (cleanup_file rt now (logDir dirname) acc file))) (log_path dirname file0) =
         (if file = file0 \<and> endsWith file0 ''.json''
          then after_sweep rt now (map_of (fs (state acc)) (log_path dirname file0))
          else map_of (fs (state acc)) (log_path dirname file0))"
proof (cases "endsWith file ''.json''")
  case False
  then show ?thesis by (auto simp: cleanup_file_skip)
next
  case True
  have pj: "path_join (logDir dirname) file = log_path dirname file"
    using path_join_child[OF abs proper_json_name[OF True]] f by (simp add: log_path_def plain_name_def)
  show ?thesis
  proof (cases "file = file0")
    case True
    then show ?thesis
      using cleanup_file_own[OF \<open>endsWith file ''.json''\<close>, where dir="logDir dirname" and acc=acc and rt=rt and now=now]
        pj \<open>endsWith file ''.json''\<close>
      by simp
  next
    case False
    then have "log_path dirname file0 \<noteq> path_join (logDir dirname) file"
      by (simp add: pj log_path_def)
    from cleanup_file_other[OF this] False show ?thesis by simp
  qed
qed

lemma cleanup_fold_at:
  assumes abs: "isAbsolute dirname" and f0: "plain_name file0"
  shows "\<forall>f \<in> set files. plain_name f \<Longrightarrow>
         map_of (fs (state (foldl (cleanup_file rt now (logDir dirname)) acc files))) (log_path dirname file0) =
         (if file0 \<in> set files \<and> endsWith file0 ''.json''
          then after_sweep rt now (map_of (fs (state acc)) (log_path dirname file0))
          else map_of (fs (state acc)) (log_path dirname file0))"
proof (induction files arbitrary: acc)
  case Nil then show ?case by simp
next
  case (Cons f files)
  have pf: "plain_name f" and rest: "\<forall>f \<in> set files. plain_name f" using Cons.prems by auto
  show ?case
    using Cons.IH[OF rest, of "cleanup_file rt now (logDir dirname) acc f"]
          cleanup_file_at[OF abs pf f0, of rt now acc]
    by (auto simp: after_sweep_idem)
qed

lemma set_map_filter: "set (List.map_filter g xs) = {y. \<exists>x \<in> set xs. g x = Some y}"
  by (induction xs) (auto split: option.splits)

lemma child_name_plain: "child_name dir p = Some f \<Longrightarrow> plain_name f"
  by (auto simp: child_name_def plain_name_def Let_def split: if_splits)

lemma readdirSync_plain: "f \<in> set (readdirSync files dir) \<Longrightarrow> plain_name f"
  by (auto simp: readdirSync_def set_map_filter dest: child_name_plain)

lemma child_name_log_path: "plain_name f \<Longrightarrow> child_name dir (dir @ ''/'' @ f) = Some f"
  by (simp add: child_name_def plain_name_def startsWith_def Let_def)

lemma readdirSync_member:
  assumes "plain_name f" "map_of files (dir @ ''/'' @ f) = Some n"
  shows "f \<in> set (readdirSync files dir)"
proof -
  have "dir @ ''/'' @ f \<in> set (map fst files)" using assms(2) by (auto dest!: map_of_SomeD intro: rev_image_eqI)
  then show ?thesis using child_name_log_path[OF assms(1), of dir]
    by (force simp: readdirSync_def set_map_filter)
qed

lemma cleanupOldLogs_at:
  assumes abs: "isAbsolute dirname" and f0: "plain_name file0"
  shows "map_of (fs (fst (cleanupOldLogs rt now dirname st))) (log_path dirname file0) =
         (if endsWith file0 ''.json''
          then after_sweep rt now (map_of (fs st) (log_path dirname file0))
          else map_of (fs st) (log_path dirname file0))"
proof (cases "map_of (fs st) (log_path dirname file0)")
  case None
  then show ?thesis
    using cleanup_fold_at[OF abs f0, of "readdirSync (fs st) (logDir dirname)" rt now
        "\<lparr>state = st, deletedCount = 0, deletedFiles = []\<rparr>"] readdirSync_plain
    by (auto simp: cleanupOldLogs_def Let_def after_sweep_def)
next
  case (Some n)
  then have "file0 \<in> set (readdirSync (fs st) (logDir dirname))"
    using readdirSync_member[OF f0] by (simp add: log_path_def)
  then show ?thesis
    using cleanup_fold_at[OF abs f0, of "readdirSync (fs st) (logDir dirname)" rt now
        "\<lparr>state = st, deletedCount = 0, deletedFiles = []\<rparr>"] readdirSync_plain
    by (auto simp: cleanupOldLogs_def Let_def)
qed

section \<open>Retention\<close>

text \<open>
  A sweep at time \<open>now\<close> over the log directory, and a file of it that can be read and
  unlinked and whose entries all have valid timestamps, the instants \<open>ts\<close>: with at
  least one entry the file is deleted if and only if the minimum of \<open>ts\<close> is strictly
  before \<open>now\<close> minus seven days, and it is deleted in full or left as it was; with
  no entry it is left as it was.
\<close>

lemma retention_by_minimum:
  assumes "isAbsolute dirname" and "plain_name file" and "endsWith file ''.json''"
    and "map_of (fs st) (log_path dirname file) = Some n"
    and "readable n" and "removable n" and "content n = Json logs"
    and "map (entry_time rt) (logArray_of logs) = map Some ts"
  shows "let after = map_of (fs (fst (cleanupOldLogs rt now dirname st))) (log_path dirname file) in
         (ts \<noteq> [] \<longrightarrow> (after = None \<longleftrightarrow> Min (set ts) < sevenDaysAgo now)) \<and>
         (after = None \<or> after = Some n) \<and>
         (ts = [] \<longrightarrow> after = Some n) \<and>
         (ts = [sevenDaysAgo now - 1000] \<longrightarrow> after = None) \<and>
         (ts = [sevenDaysAgo now + 1000] \<longrightarrow> after = Some n) \<and>
         (\<forall>old recent. ts = [old, recent] \<and> old < sevenDaysAgo now \<longrightarrow> after = None)"
proof -
  let ?after = "map_of (fs (fst (cleanupOldLogs rt now dirname st))) (log_path dirname file)"
  have at: "?after = after_sweep rt now (Some n)"
    using cleanupOldLogs_at[OF assms(1,2), of rt now st] assms(3,4) by simp
  have len: "logArray_of logs = [] \<longleftrightarrow> ts = []"
    using assms(8) by (metis map_is_Nil_conv)
  have r: "?after = (if ts \<noteq> [] \<and> Min (set ts) < sevenDaysAgo now then None else Some n)"
  proof (cases "ts = []")
    case True
    then have "logArray_of logs = []" using len by simp
    from file_verdict_empty[OF assms(7) this, of rt now] show ?thesis
      using True at by (auto simp: after_sweep_def)
  next
    case False
    then have ne: "logArray_of logs \<noteq> []" using len by simp
    from file_verdict_valid[OF assms(5,6,7) ne assms(8), of now] show ?thesis
      using False at by (auto simp: after_sweep_def)
  qed
  show ?thesis unfolding Let_def r by (auto simp: min_def)
qed

text \<open>
  C1. The sweep of 2025-01-15T00:00:00Z on six files. The file with one entry a second
  before the cutoff of 2025-01-08T00:00:00Z is deleted and the one a second after it is
  retained; the file with an old and a recent entry and the file holding a single old
  entry outside an array are deleted; the file without entries is left as it is. The
  file \<^verbatim>\<open>f.json\<close>, whose minimum timestamp (2025-01-01) is more than seven days before
  the sweep, is retained, because its first entry has no timestamp: there the sweep does
  not decide by the minimum timestamp.
\<close>

theorem undated_first_entry_keeps_expired_file:
  "fs (fst (cleanupOldLogs node_rt jan15 app_dir (fresh_server retention_dir)))
     = [retention_dir ! 1, retention_dir ! 3, retention_dir ! 5] \<and>
   map fst [retention_dir ! 1, retention_dir ! 3, retention_dir ! 5]
     = [''/srv/app/log/b.json'', ''/srv/app/log/d.json'', ''/srv/app/log/f.json''] \<and>
   map (entry_time node_rt)
       [no_timestamp, entry_at ''2025-01-01T00:00:00Z'', entry_at ''2025-01-14T00:00:00Z'']
     = [None, Some 1735689600000, Some 1736812800000] \<and>
   jan15 = 1736899200000 \<and>
   (1735689600000::int) < 1736899200000 - 7 * 24 * 60 * 60 * 1000"
proof -
  have a: "fs (fst (cleanupOldLogs node_rt jan15 app_dir (fresh_server retention_dir)))
     = [retention_dir ! 1, retention_dir ! 3, retention_dir ! 5]" by code_simp
  have b: "map fst [retention_dir ! 1, retention_dir ! 3, retention_dir ! 5]
     = [''/srv/app/log/b.json'', ''/srv/app/log/d.json'', ''/srv/app/log/f.json'']" by code_simp
  have c: "map (entry_time node_rt)
       [no_timestamp, entry_at ''2025-01-01T00:00:00Z'', entry_at ''2025-01-14T00:00:00Z'']
     = [None, Some 1735689600000, Some 1736812800000]" by code_simp
  show ?thesis using a b c by (simp add: jan15_def)
qed

section \<open>Entries without a valid timestamp\<close>

text \<open>
  C3. The sweep of 2025-01-15 on two files holding the same two entries, one without
  timestamp and one of 2025-01-01: the file in which the entry without timestamp comes
  first is retained (it suppresses the deletion that the old entry calls for), the file
  in which it comes second is deleted.
\<close>

theorem unparseable_first_entry_suppresses_deletion:
  "fs (fst (cleanupOldLogs node_rt jan15 app_dir
         (fresh_server [(''/srv/app/log/a.json'', regular_file unparseable_first),
                        (''/srv/app/log/b.json'', regular_file unparseable_second)])))
   = [(''/srv/app/log/a.json'', regular_file unparseable_first)]"
  by code_simp

section \<open>Failures during the sweep\<close>

lemma cleanup_file_console_mono:
  "set (console (state acc)) \<subseteq> set (console (state (cleanup_file rt now dir acc f)))"
  by (auto simp: cleanup_file_def split: sum.splits option.splits prod.splits)

lemma cleanup_fold_console_mono:
  "set (console (state acc)) \<subseteq> set (console (state (foldl (cleanup_file rt now dir) acc fls)))"
proof (induction fls arbitrary: acc)
  case Nil then show ?case by simp
next
  case (Cons f fls)
  show ?case using Cons.IH[of "cleanup_file rt now dir acc f"] cleanup_file_console_mono[of acc rt now dir f]
    by auto
qed

lemma cleanup_file_logs_error:
  assumes "endsWith f ''.json''" "map_of (fs (state acc)) (path_join dir f) = Some n"
    "file_verdict rt now n = Inl e"
  shows "CleanupError f \<in> set (console (state (cleanup_file rt now dir acc f)))"
  using assms by (simp add: cleanup_file_def process_file_verdict)

lemma cleanup_fold_logs_error:
  assumes abs: "isAbsolute dirname" and f0: "plain_name file0" and js: "endsWith file0 ''.json''"
    and v: "file_verdict rt now n = Inl e"
  shows "\<forall>f \<in> set fls. plain_name f \<Longrightarrow> file0 \<in> set fls \<Longrightarrow>
         map_of (fs (state acc)) (log_path dirname file0) = Some n \<Longrightarrow>
         CleanupError file0 \<in> set (console (state (foldl (cleanup_file rt now (logDir dirname)) acc fls)))"
proof (induction fls arbitrary: acc)
  case Nil then show ?case by simp
next
  case (Cons f fls)
  have pj: "path_join (logDir dirname) file0 = log_path dirname file0"
    using path_join_child[OF abs proper_json_name[OF js]] f0 by (simp add: log_path_def plain_name_def)
  show ?case
  proof (cases "f = file0")
    case True
    have "CleanupError file0 \<in> set (console (state (cleanup_file rt now (logDir dirname) acc file0)))"
      using cleanup_file_logs_error[OF js _ v, of acc "logDir dirname"] Cons.prems(3) pj by simp
    then show ?thesis using True cleanup_fold_console_mono by fastforce
  next
    case False
    have pf: "plain_name f" and rest: "\<forall>f \<in> set fls. plain_name f" using Cons.prems(1) by auto
    have "map_of (fs (state (cleanup_file rt now (logDir dirname) acc f))) (log_path dirname file0) = Some n"
      using cleanup_file_at[OF abs pf f0, of rt now acc] False Cons.prems(3) by simp
    from Cons.IH[OF rest _ this] show ?thesis using Cons.prems(2) False by simp
  qed
qed

lemma cleanupOldLogs_logs_error:
  assumes abs: "isAbsolute dirname" and f0: "plain_name file0" and js: "endsWith file0 ''.json''"
    and n: "map_of (fs st) (log_path dirname file0) = Some n"
    and v: "file_verdict rt now n = Inl e"
  shows "CleanupError file0 \<in> set (console (fst (cleanupOldLogs rt now dirname st)))"
proof -
  have mem: "file0 \<in> set (readdirSync (fs st) (logDir dirname))"
    using readdirSync_member[OF f0] n by (simp add: log_path_def)
  have "CleanupError file0 \<in> set (console (state (foldl (cleanup_file rt now (logDir dirname))
            \<lparr>state = st, deletedCount = 0, deletedFiles = []\<rparr> (readdirSync (fs st) (logDir dirname)))))"
    by (rule cleanup_fold_logs_error[OF abs f0 js v _ mem]) (use readdirSync_plain n in auto)
  then show ?thesis by (simp add: cleanupOldLogs_def Let_def)
qed

lemma file_verdict_unreadable: "\<not> readable n \<Longrightarrow> file_verdict rt now n = Inl IOError"
  by (simp add: file_verdict_def process_file_def readFileSync_def)

lemma file_verdict_garbage: "readable n \<Longrightarrow> content n = Garbage \<Longrightarrow> file_verdict rt now n = Inl SyntaxError"
  by (simp add: file_verdict_def process_file_def readFileSync_def JSON_parse_text_def)

lemma file_verdict_unremovable:
  assumes "readable n" "\<not> removable n" "content n = Json logs"
    and "logArray_of logs \<noteq> []" "map (entry_time rt) (logArray_of logs) = map Some ts"
    and "Min (set ts) < sevenDaysAgo now"
  shows "file_verdict rt now n = Inl IOError"
proof -
  obtain m where m: "reduce (older rt) (logArray_of logs) = Inr m" "entry_time rt m = Some (Min (set ts))"
    using reduce_valid[OF assms(4,5)] by blast
  obtain tsm where tsm: "timestamp m = Inr tsm" "Date rt tsm = Inr (Some (Min (set ts)))"
    using entry_time_SomeD[OF m(2)] by blast
  show ?thesis
    using assms(1-4,6) m(1) tsm
    by (auto simp: file_verdict_def process_file_def readFileSync_def unlinkSync_def Let_def JSON_parse_text_def)
qed

lemma cleanup_status: "status (fst (cleanup rt now dirname st)) = 200"
  by (simp add: cleanup_def Let_def split: prod.splits)

lemma save_response_local:
  assumes "allLogs st2 = allLogs st"
    and "map_of (fs st2) (path_join (logDir dirname) (sanitize name @ ''.json''))
         = map_of (fs st) (path_join (logDir dirname) (sanitize name @ ''.json''))"
  shows "fst (save rt now dirname (JObj [(''logData'', logData), (''fileName'', JStr name)]) st2)
       = fst (save rt now dirname (JObj [(''logData'', logData), (''fileName'', JStr name)]) st)"
  using assms
  by (auto simp: save_def Let_def writeFileSync_def server_error_def split: sum.splits option.splits)

text \<open>
  C7. In a sweep of the log directory every file gets the verdict it would get alone,
  whatever happens on the other files. A file on which processing fails (it cannot be
  read, it is not JSON, it cannot be unlinked, an entry is \<^verbatim>\<open>null\<close>) is left in place
  and the failure is logged. The sweep itself always returns, the cleanup endpoint
  answers 200, and the response of a save depends on the file system only through the
  file it writes, not on the other files that its sweep meets.
\<close>

theorem sweep_isolates_failures:
  assumes "isAbsolute dirname" and "plain_name file" and "endsWith file ''.json''"
  shows "let st' = fst (cleanupOldLogs rt now dirname st); p = log_path dirname file in
      map_of (fs st') p = after_sweep rt now (map_of (fs st) p) \<and>
      (\<forall>n e. map_of (fs st) p = Some n \<and> file_verdict rt now n = Inl e \<longrightarrow>
         CleanupError file \<in> set (console st') \<and> map_of (fs st') p = Some n) \<and>
      (\<forall>n. \<not> readable n \<longrightarrow> file_verdict rt now n = Inl IOError) \<and>
      (\<forall>n. readable n \<and> content n = Garbage \<longrightarrow> file_verdict rt now n = Inl SyntaxError) \<and>
      (\<forall>n logs ts. readable n \<and> \<not> removable n \<and> content n = Json logs \<and> ts \<noteq> [] \<and>
         map (entry_time rt) (logArray_of logs) = map Some ts \<and> Min (set ts) < sevenDaysAgo now
         \<longrightarrow> file_verdict rt now n = Inl IOError) \<and>
      status (fst (cleanup rt now dirname st)) = 200 \<and>
      (\<forall>name logData st2. allLogs st2 = allLogs st \<and>
         map_of (fs st2) (log_path dirname (sanitize name @ ''.json''))
           = map_of (fs st) (log_path dirname (sanitize name @ ''.json'')) \<longrightarrow>
         fst (save rt now dirname (JObj [(''logData'', logData), (''fileName'', JStr name)]) st2)
           = fst (save rt now dirname (JObj [(''logData'', logData), (''fileName'', JStr name)]) st))"
proof -
  let ?st' = "fst (cleanupOldLogs rt now dirname st)"
  let ?p = "log_path dirname file"
  have a: "map_of (fs ?st') ?p = after_sweep rt now (map_of (fs st) ?p)"
    using cleanupOldLogs_at[OF assms(1,2), of rt now st] assms(3) by simp
  have b: "\<forall>n e. map_of (fs st) ?p = Some n \<and> file_verdict rt now n = Inl e \<longrightarrow>
         CleanupError file \<in> set (console ?st') \<and> map_of (fs ?st') ?p = Some n"
    using cleanupOldLogs_logs_error[OF assms] a by (auto simp: after_sweep_def)
  have c: "\<forall>n logs ts. readable n \<and> \<not> removable n \<and> content n = Json logs \<and> ts \<noteq> [] \<and>
         map (entry_time rt) (logArray_of logs) = map Some ts \<and> Min (set ts) < sevenDaysAgo now
         \<longrightarrow> file_verdict rt now n = Inl IOError"
  proof (intro allI impI)
    fix n :: node and logs ts
    assume h: "readable n \<and> \<not> removable n \<and> content n = Json logs \<and> ts \<noteq> [] \<and>
         map (entry_time rt) (logArray_of logs) = map Some ts \<and> Min (set ts) < sevenDaysAgo now"
    then have "logArray_of logs \<noteq> []" by (metis map_is_Nil_conv)
    with h show "file_verdict rt now n = Inl IOError"
      using file_verdict_unremovable by blast
  qed
  have d: "\<forall>name logData st2. allLogs st2 = allLogs st \<and>
         map_of (fs st2) (log_path dirname (sanitize name @ ''.json''))
           = map_of (fs st) (log_path dirname (sanitize name @ ''.json'')) \<longrightarrow>
         fst (save rt now dirname (JObj [(''logData'', logData), (''fileName'', JStr name)]) st2)
           = fst (save rt now dirname (JObj [(''logData'', logData), (''fileName'', JStr name)]) st)"
  proof (intro allI impI)
    fix name logData and st2 :: server
    assume h: "allLogs st2 = allLogs st \<and>
         map_of (fs st2) (log_path dirname (sanitize name @ ''.json''))
           = map_of (fs st) (log_path dirname (sanitize name @ ''.json''))"
    have pj: "path_join (logDir dirname) (sanitize name @ ''.json'') = log_path dirname (sanitize name @ ''.json'')"
      using path_join_child[OF assms(1) proper_sanitized] by (simp add: log_path_def)
    show "fst (save rt now dirname (JObj [(''logData'', logData), (''fileName'', JStr name)]) st2)
           = fst (save rt now dirname (JObj [(''logData'', logData), (''fileName'', JStr name)]) st)"
      by (rule save_response_local) (use h pj in auto)
  qed
  show ?thesis
    unfolding Let_def
    using a b c d file_verdict_unreadable file_verdict_garbage cleanup_status by blast
qed

theorem sweep_isolates_failures_witness:
  "isAbsolute app_dir \<and> plain_name ''c.json'' \<and> endsWith ''c.json'' ''.json'' \<and>
   file_verdict node_rt jan15 (snd (broken_dir ! 0)) = Inl SyntaxError \<and>
   file_verdict node_rt jan15 (snd (broken_dir ! 1)) = Inl IOError \<and>
   map_of (fs (fst (cleanupOldLogs node_rt jan15 app_dir (fresh_server broken_dir))))
      ''/srv/app/log/c.json'' = None"
proof -
  have h1: "isAbsolute app_dir" by code_simp
  have h2: "plain_name ''c.json''" by code_simp
  have h3: "endsWith ''c.json'' ''.json''" by code_simp
  have p: "log_path app_dir ''c.json'' = ''/srv/app/log/c.json''" by code_simp
  have v: "after_sweep node_rt jan15 (map_of (fs (fresh_server broken_dir)) ''/srv/app/log/c.json'') = None"
    by code_simp
  have va: "file_verdict node_rt jan15 (snd (broken_dir ! 0)) = Inl SyntaxError" by code_simp
  have vb: "file_verdict node_rt jan15 (snd (broken_dir ! 1)) = Inl IOError" by code_simp
  have "map_of (fs (fst (cleanupOldLogs node_rt jan15 app_dir (fresh_server broken_dir))))
      ''/srv/app/log/c.json'' = None"
    using sweep_isolates_failures[OF h1 h2 h3, of node_rt jan15 "fresh_server broken_dir"] v
    unfolding Let_def p by simp
  then show ?thesis using h1 h2 h3 va vb by simp
qed

section \<open>Rebuilding the index\<close>

lemma sort_insert_mset:
  "sort_insert cmp x ys = Inr r \<Longrightarrow> mset r = add_mset x (mset ys)"
  by (induction ys arbitrary: r) (auto split: sum.splits if_splits)

lemma array_sort_mset: "array_sort cmp xs = Inr r \<Longrightarrow> mset r = mset xs"
  by (induction xs arbitrary: r) (auto split: sum.splits dest: sort_insert_mset)

lemma load_file_fs: "fs (load_file dir st f) = fs st"
  by (simp add: load_file_def split: sum.splits json.splits)

lemma load_file_allLogs:
  "allLogs (load_file dir st f) =
     allLogs st @ (if endsWith f ''.json'' then entries_of (map_of (fs st) (path_join dir f)) else [])"
  by (auto simp: load_file_def entries_of_def readFileSync_def JSON_parse_text_def
      split: sum.splits json.splits option.splits content.splits)


lemma load_fold_allLogs:
  "allLogs (foldl (load_file dir) st fls) =
     allLogs st @ concat (map (\<lambda>f. entries_of (map_of (fs st) (path_join dir f)))
                              (filter (\<lambda>f. endsWith f ''.json'') fls))"
  by (induction fls arbitrary: st) (simp_all add: load_file_fs load_file_allLogs)


lemma loadLogsFromFiles_cases:
  "(array_sort (load_cmp rt) (disk_entries dirname (fs st)) = Inr (allLogs (loadLogsFromFiles rt dirname st))) \<or>
   ((\<exists>e. array_sort (load_cmp rt) (disk_entries dirname (fs st)) = Inl e) \<and>
    allLogs (loadLogsFromFiles rt dirname st) = disk_entries dirname (fs st))"
  by (auto simp: loadLogsFromFiles_def Let_def load_fold_allLogs disk_entries_def split: sum.splits)

lemma loadLogsFromFiles_mset:
  "mset (allLogs (loadLogsFromFiles rt dirname st)) = mset (disk_entries dirname (fs st))"
  using loadLogsFromFiles_cases[of rt dirname st] by (auto dest: array_sort_mset)

lemma load_cmp_valid:
  assumes "entry_time rt a = Some ta" "entry_time rt b = Some tb"
  shows "load_cmp rt a b = Inr (Some (tb - ta))"
  using assms by (auto simp: load_cmp_def dest!: entry_time_SomeD)

lemma sort_insert_valid:
  assumes "entry_time rt x \<noteq> None" "\<forall>y \<in> set ys. entry_time rt y \<noteq> None"
  shows "sort_insert (load_cmp rt) x ys = Inr (insort_key (newest_first rt) x ys)"
  using assms
proof (induction ys)
  case Nil then show ?case by simp
next
  case (Cons y ys)
  obtain tx ty where t: "entry_time rt x = Some tx" "entry_time rt y = Some ty"
    using Cons.prems by auto
  show ?case using Cons t load_cmp_valid[OF t]
    by (auto simp: sort_order_def newest_first_def)
qed

lemma array_sort_valid:
  "\<forall>y \<in> set xs. entry_time rt y \<noteq> None \<Longrightarrow>
   array_sort (load_cmp rt) xs = Inr (sort_key (newest_first rt) xs)"
proof (induction xs)
  case Nil then show ?case by simp
next
  case (Cons x xs)
  have "\<forall>y \<in> set (sort_key (newest_first rt) xs). entry_time rt y \<noteq> None"
    using Cons.prems by simp
  then show ?case using Cons sort_insert_valid[of rt x "sort_key (newest_first rt) xs"]
    by (simp add: sort_key_def)
qed

lemma loadLogsFromFiles_valid:
  assumes "\<forall>e \<in> set (disk_entries dirname (fs st)). entry_time rt e \<noteq> None"
  shows "allLogs (loadLogsFromFiles rt dirname st) = sort_key (newest_first rt) (disk_entries dirname (fs st))"
  using loadLogsFromFiles_cases[of rt dirname st] array_sort_valid[OF assms] by auto

lemma sorted_uminus_rev: "sorted (map uminus (xs::int list)) = sorted (rev xs)"
  by (simp add: sorted_map sorted_wrt_rev) 

lemma newest_first_valid: "entry_time rt e = Some t \<Longrightarrow> newest_first rt e = - t"
  by (simp add: newest_first_def)

text \<open>
  After a rebuild of the index from log files whose entries all have valid timestamps,
  the instants of the entries of the index are in descending order (newest first),
  entries with the same instant are in the order in which the files were enumerated (and
  in their order within a file), and the index holds the entries of the files.
\<close>

lemma index_sorted_newest_first:
  assumes "map (entry_time rt) (disk_entries dirname (fs st)) = map Some ts"
  shows "let st' = loadLogsFromFiles rt dirname st in
      handle_GET dirname ''/api/logs'' st' = Some (\<lparr>status = 200, body = JsonBody (JArr (allLogs st'))\<rparr>, st') \<and>
      (\<exists>ts'. map (entry_time rt) (allLogs st') = map Some ts' \<and> sorted (rev ts')) \<and>
      (\<forall>t. filter (\<lambda>e. entry_time rt e = Some t) (allLogs st')
           = filter (\<lambda>e. entry_time rt e = Some t) (disk_entries dirname (fs st))) \<and>
      mset (allLogs st') = mset (disk_entries dirname (fs st))"
proof -
  let ?D = "disk_entries dirname (fs st)"
  let ?L = "allLogs (loadLogsFromFiles rt dirname st)"
  have valid: "\<forall>e \<in> set ?D. entry_time rt e \<noteq> None"
  proof
    fix e assume "e \<in> set ?D"
    then have "entry_time rt e \<in> set (map (entry_time rt) ?D)" by simp
    then show "entry_time rt e \<noteq> None" unfolding assms by auto
  qed
  have L: "?L = sort_key (newest_first rt) ?D" by (rule loadLogsFromFiles_valid[OF valid])
  have validL: "\<forall>e \<in> set ?L. entry_time rt e \<noteq> None" using valid L by simp
  define ts' where "ts' = map (\<lambda>e. - newest_first rt e) ?L"
  have m: "map (entry_time rt) ?L = map Some ts'"
    unfolding ts'_def using validL by (auto simp: newest_first_def)
  have "sorted (map (newest_first rt) ?L)" unfolding L by simp
  moreover have "map (newest_first rt) ?L = map uminus ts'" unfolding ts'_def by (simp add: comp_def)
  ultimately have s: "sorted (rev ts')" by (simp add: sorted_uminus_rev)
  have stable: "filter (\<lambda>e. entry_time rt e = Some t) ?L = filter (\<lambda>e. entry_time rt e = Some t) ?D" for t
  proof -
    have eq: "\<And>xs. \<forall>e \<in> set xs. entry_time rt e \<noteq> None \<Longrightarrow>
        filter (\<lambda>e. entry_time rt e = Some t) xs = filter (\<lambda>e. newest_first rt e = - t) xs"
      by (rule filter_cong) (auto simp: newest_first_def)
    show ?thesis
      unfolding eq[OF validL] eq[OF valid] unfolding L by (rule sort_key_stable)
  qed
  have g: "handle_GET dirname ''/api/logs'' (loadLogsFromFiles rt dirname st)
        = Some (\<lparr>status = 200, body = JsonBody (JArr ?L)\<rparr>, loadLogsFromFiles rt dirname st)"
    by (simp add: handle_GET_def get_logs_def)
  show ?thesis unfolding Let_def using g m s stable loadLogsFromFiles_mset by blast
qed

text \<open>
  C8. A rebuild of the index from one log file whose entries are of 2025-01-10, without
  timestamp, and of 2025-01-14, in this order: \<^verbatim>\<open>GET /api/logs\<close> returns the three
  entries in the order of the file, the entry of 2025-01-10 before the newer entry of
  2025-01-14. The index is not sorted newest first.
\<close>

theorem undated_entry_breaks_order:
  "request_GET app_dir ''/api/logs'' (loadLogsFromFiles node_rt app_dir (fresh_server undated_between))
     = Some (\<lparr>status = 200,
              body = JsonBody (JArr [entry_at ''2025-01-10T00:00:00Z'', no_timestamp,
                                     entry_at ''2025-01-14T00:00:00Z''])\<rparr>,
             loadLogsFromFiles node_rt app_dir (fresh_server undated_between)) \<and>
   entry_time node_rt (entry_at ''2025-01-10T00:00:00Z'') = Some 1736467200000 \<and>
   entry_time node_rt no_timestamp = None \<and>
   entry_time node_rt (entry_at ''2025-01-14T00:00:00Z'') = Some 1736812800000"
proof -
  have a: "allLogs (loadLogsFromFiles node_rt app_dir (fresh_server undated_between))
     = [entry_at ''2025-01-10T00:00:00Z'', no_timestamp, entry_at ''2025-01-14T00:00:00Z'']"
    by code_simp
  have p: "url_pathname ''/api/logs'' = ''/api/logs''" by code_simp
  have g: "request_GET app_dir ''/api/logs'' (loadLogsFromFiles node_rt app_dir (fresh_server undated_between))
     = Some (\<lparr>status = 200,
              body = JsonBody (JArr [entry_at ''2025-01-10T00:00:00Z'', no_timestamp,
                                     entry_at ''2025-01-14T00:00:00Z''])\<rparr>,
             loadLogsFromFiles node_rt app_dir (fresh_server undated_between))"
    by (simp add: request_GET_def p handle_GET_def get_logs_def a)
  have b: "entry_time node_rt (entry_at ''2025-01-10T00:00:00Z'') = Some 1736467200000" by code_simp
  have c: "entry_time node_rt no_timestamp = None" by code_simp
  have d: "entry_time node_rt (entry_at ''2025-01-14T00:00:00Z'') = Some 1736812800000" by code_simp
  show ?thesis using g b c d by simp
qed

section \<open>Saving\<close>




lemma save_ok:
  assumes "status (fst (save rt now dirname reqBody st)) = 200"
  shows "\<exists>logData name files' sortedLogs.
           get_prop reqBody ''logData'' = Inr (Some logData) \<and> \<not> falsy (Some logData) \<and>
           get_prop reqBody ''fileName'' = Inr (Some (JStr name)) \<and> name \<noteq> [] \<and>
           writeFileSync (fs st) (path_join (logDir dirname) (sanitize name @ ''.json''))
              (Json (dataToSave_of rt logData)) = Inr files' \<and>
           array_sort (save_cmp rt) (allLogs st @ pushed_entries (dataToSave_of rt logData)) = Inr sortedLogs \<and>
           save rt now dirname reqBody st =
             (\<lparr>status = 200,
               body = JsonBody (JObj [(''success'', JBool True),
                        (''message'', JStr ''Log saved successfully''),
                        (''filePath'', JStr (path_join (logDir dirname) (sanitize name @ ''.json''))),
                        (''fileName'', JStr (sanitize name @ ''.json''))])\<rparr>,
              fst (cleanupOldLogs rt now dirname (st\<lparr>fs := files', allLogs := sortedLogs\<rparr>)))"
proof -
  obtain lg where lg: "get_prop reqBody ''logData'' = Inr lg"
    using assms by (cases "get_prop reqBody ''logData''") (auto simp: save_def server_error_def error_response_def)
  obtain fn where fn: "get_prop reqBody ''fileName'' = Inr fn"
    using assms lg by (cases "get_prop reqBody ''fileName''") (auto simp: save_def server_error_def error_response_def)
  have nf: "\<not> falsy lg" "\<not> falsy fn"
    using assms lg fn by (auto simp: save_def error_response_def split: if_splits)
  obtain logData where ld: "lg = Some logData" using nf(1) by (cases lg) auto
  obtain name where nm: "fn = Some (JStr name)"
    using assms lg fn nf ld
    by (auto simp: save_def server_error_def error_response_def split: option.splits json.splits)
  have ne: "name \<noteq> []" using nf(2) nm by simp
  let ?p = "path_join (logDir dirname) (sanitize name @ ''.json'')"
  obtain files' where w: "writeFileSync (fs st) ?p (Json (dataToSave_of rt logData)) = Inr files'"
    using assms lg fn nf ld nm
    by (cases "writeFileSync (fs st) ?p (Json (dataToSave_of rt logData))")
       (auto simp: save_def Let_def server_error_def error_response_def)
  obtain sortedLogs where srt: "array_sort (save_cmp rt) (allLogs st @ pushed_entries (dataToSave_of rt logData)) = Inr sortedLogs"
    using assms lg fn nf ld nm w
    by (cases "array_sort (save_cmp rt) (allLogs st @ pushed_entries (dataToSave_of rt logData))")
       (auto simp: save_def Let_def server_error_def error_response_def pushed_entries_def)
  have "save rt now dirname reqBody st =
             (\<lparr>status = 200,
               body = JsonBody (JObj [(''success'', JBool True),
                        (''message'', JStr ''Log saved successfully''),
                        (''filePath'', JStr ?p),
                        (''fileName'', JStr (sanitize name @ ''.json''))])\<rparr>,
              fst (cleanupOldLogs rt now dirname (st\<lparr>fs := files', allLogs := sortedLogs\<rparr>)))"
    using lg fn nf ld nm w srt by (simp add: save_def Let_def pushed_entries_def)
  then show ?thesis using lg fn nf ld nm ne w srt by blast
qed







text \<open>
  A save request on whose body the reads of \<^verbatim>\<open>logData\<close> and \<^verbatim>\<open>fileName\<close> do not throw
  and give, for one of them, \<^verbatim>\<open>undefined\<close> or another falsy value, is answered with
  status 400 and an error body, and the server's state is as before.
\<close>

lemma save_validation_has_no_effect:
  assumes "get_prop reqBody ''logData'' = Inr logData" and "get_prop reqBody ''fileName'' = Inr fileName"
    and "falsy logData \<or> falsy fileName"
  shows "snd (save rt now dirname reqBody st) = st \<and>
         (fst (save rt now dirname reqBody st) = error_response 400 ''logData is required'' \<or>
          fst (save rt now dirname reqBody st) = error_response 400 ''fileName is required'') \<and>
         status (fst (save rt now dirname reqBody st)) = 400"
  using assms by (auto simp: save_def error_response_def)

text \<open>
  C5. The save request whose body is the JSON value \<^verbatim>\<open>null\<close>, in which \<^verbatim>\<open>logData\<close> and
  \<^verbatim>\<open>fileName\<close> are missing, is answered with status 500, not 400: the destructuring of
  line 237 throws. The files and the index are as before, and the error is logged. A
  body that is an empty array is answered with 400.
\<close>

theorem null_body_answers_500:
  "save node_rt jan15 app_dir JNull (fresh_server two_files)
     = (error_response 500 ''Internal server error'',
        \<lparr>fs = two_files, allLogs = [], console = [ServerError TypeError]\<rparr>) \<and>
   save node_rt jan15 app_dir (JArr []) (fresh_server two_files)
     = (error_response 400 ''logData is required'', fresh_server two_files)"
  by (simp add: save_def server_error_def fresh_server_def)

lemma writeFileSync_at:
  assumes "writeFileSync files p t = Inr files'"
  shows "(\<exists>n. map_of files' p = Some n \<and> content n = t \<and>
              (case map_of files p of None \<Rightarrow> readable n | Some n0 \<Rightarrow> readable n = readable n0)) \<and>
         (\<forall>q. q \<noteq> p \<longrightarrow> map_of files' q = map_of files q)"
  using assms
  by (auto simp: writeFileSync_def update_conv' map_add_def split: option.splits if_splits)

lemma sanitized_plain: "plain_name (sanitize name @ ''.json'')"
  using proper_sanitized[of name] by (simp add: proper_def plain_name_def)

lemma sanitized_json: "endsWith (sanitize name @ ''.json'') ''.json''"
  by (simp add: endsWith_def suffix_def)

lemma filePath_eq:
  "isAbsolute dirname \<Longrightarrow>
   path_join (logDir dirname) (sanitize name @ ''.json'') = log_path dirname (sanitize name @ ''.json'')"
  using path_join_child[OF _ proper_sanitized] by (simp add: log_path_def)

lemma save_request_props:
  "get_prop (save_request logData name) ''logData'' = Inr (Some logData)"
  "get_prop (save_request logData name) ''fileName'' = Inr (Some (JStr name))"
  by (simp_all add: save_request_def)

lemma save_file_after:
  assumes abs: "isAbsolute dirname"
    and ok: "status (fst (save rt now dirname (save_request logData name) st)) = 200"
  shows "\<exists>n. content n = Json (dataToSave_of rt logData) \<and>
             (case map_of (fs st) (log_path dirname (sanitize name @ ''.json'')) of
                None \<Rightarrow> readable n | Some n0 \<Rightarrow> readable n = readable n0) \<and>
             map_of (fs (snd (save rt now dirname (save_request logData name) st)))
                    (log_path dirname (sanitize name @ ''.json'')) = after_sweep rt now (Some n)"
proof -
  let ?p = "log_path dirname (sanitize name @ ''.json'')"
  from save_ok[OF ok] obtain files' sortedLogs where
    w: "writeFileSync (fs st) ?p (Json (dataToSave_of rt logData)) = Inr files'"
    and s: "save rt now dirname (save_request logData name) st =
             (\<lparr>status = 200,
               body = JsonBody (JObj [(''success'', JBool True),
                        (''message'', JStr ''Log saved successfully''),
                        (''filePath'', JStr ?p),
                        (''fileName'', JStr (sanitize name @ ''.json''))])\<rparr>,
              fst (cleanupOldLogs rt now dirname (st\<lparr>fs := files', allLogs := sortedLogs\<rparr>)))"
    unfolding save_request_props filePath_eq[OF abs] by auto
  from writeFileSync_at[OF w] obtain n where
    n: "map_of files' ?p = Some n" "content n = Json (dataToSave_of rt logData)"
       "(case map_of (fs st) ?p of None \<Rightarrow> readable n | Some n0 \<Rightarrow> readable n = readable n0)"
    by blast
  have "map_of (fs (snd (save rt now dirname (save_request logData name) st))) ?p = after_sweep rt now (Some n)"
    using cleanupOldLogs_at[OF abs sanitized_plain[of name], of rt now "st\<lparr>fs := files', allLogs := sortedLogs\<rparr>"]
      sanitized_json[of name] n(1) unfolding s by simp
  then show ?thesis using n(2,3) by blast
qed

text \<open>
  C6, as stated, fails: after two successful saves to the stream \<^verbatim>\<open>t\<close>, the second of
  an entry older than seven days, the file does not hold the second call's data: the
  sweep that the save runs has deleted it.
\<close>

theorem second_save_file_deleted:
  "status (fst first_save) = 200 \<and> status (fst old_second_save) = 200 \<and>
   map_of (fs (snd old_second_save)) ''/srv/app/log/t.json'' = None"
proof -
  have a: "status (fst first_save) = 200" by code_simp
  have b: "status (fst old_second_save) = 200" by code_simp
  have c: "fs (snd old_second_save) = []" by code_simp
  show ?thesis using a b c by simp
qed

text \<open>
  C6, amended. After two successive successful saves to the same stream name, the file
  of the stream either holds exactly the data of the second call (\<^verbatim>\<open>logData\<close>, or for a
  string what it parses to, or \<^verbatim>\<open>{raw: logData}\<close>), or does not exist because the sweep
  of the second call has deleted it, its verdict on the data of the second call being
  deletion. Nothing of the first call's data remains in it.
\<close>

theorem last_write_wins:
  assumes "isAbsolute dirname"
    and "status (fst (save rt now1 dirname (save_request logData1 name) st)) = 200"
    and "status (fst (save rt now2 dirname (save_request logData2 name)
                   (snd (save rt now1 dirname (save_request logData1 name) st)))) = 200"
  shows "let after = map_of (fs (snd (save rt now2 dirname (save_request logData2 name)
                        (snd (save rt now1 dirname (save_request logData1 name) st)))))
                      (log_path dirname (sanitize name @ ''.json''))
         in (\<exists>n. after = Some n \<and> content n = Json (dataToSave_of rt logData2)) \<or>
            (after = None \<and>
             (\<exists>n ts. content n = Json (dataToSave_of rt logData2) \<and> file_verdict rt now2 n = Inr (Some ts)))"
proof -
  from save_file_after[OF assms(1,3)] obtain n where
    n: "content n = Json (dataToSave_of rt logData2)"
       "map_of (fs (snd (save rt now2 dirname (save_request logData2 name)
                        (snd (save rt now1 dirname (save_request logData1 name) st)))))
               (log_path dirname (sanitize name @ ''.json'')) = after_sweep rt now2 (Some n)"
    by blast
  show ?thesis
    unfolding Let_def n(2) using n(1)
    by (cases "file_verdict rt now2 n") (auto simp: after_sweep_def split: option.splits)
qed

theorem last_write_wins_witness:
  "isAbsolute app_dir \<and> status (fst first_save) = 200 \<and> status (fst second_save) = 200 \<and>
   log_path app_dir (sanitize ''t'' @ ''.json'') = ''/srv/app/log/t.json'' \<and>
   (\<exists>n. map_of (fs (snd second_save)) ''/srv/app/log/t.json'' = Some n \<and>
        content n = Json (JArr [entry_at ''2025-01-14T09:00:00Z'']))"
proof -
  have h1: "isAbsolute app_dir" by code_simp
  have h2: "status (fst (save node_rt jan15 app_dir
     (save_request (JArr [entry_at ''2025-01-14T08:00:00Z'']) ''t'') (fresh_server []))) = 200"
    by code_simp
  have h3: "status (fst (save node_rt jan15 app_dir
     (save_request (JArr [entry_at ''2025-01-14T09:00:00Z'']) ''t'')
     (snd (save node_rt jan15 app_dir
        (save_request (JArr [entry_at ''2025-01-14T08:00:00Z'']) ''t'') (fresh_server []))))) = 200"
    by code_simp
  have p: "log_path app_dir (sanitize ''t'' @ ''.json'') = ''/srv/app/log/t.json''" by code_simp
  have d: "dataToSave_of node_rt (JArr [entry_at ''2025-01-14T09:00:00Z'']) = JArr [entry_at ''2025-01-14T09:00:00Z'']"
    by (simp add: dataToSave_of_def)
  have ex: "map_of (fs (snd second_save)) ''/srv/app/log/t.json'' \<noteq> None" by code_simp
  from last_write_wins[OF h1 h2 h3] ex
  have "\<exists>n. map_of (fs (snd second_save)) ''/srv/app/log/t.json'' = Some n \<and>
        content n = Json (JArr [entry_at ''2025-01-14T09:00:00Z''])"
    unfolding Let_def p d second_save_def first_save_def by blast
  then show ?thesis using h1 h2 h3 p unfolding second_save_def first_save_def by simp
qed


lemma startsWith_logDir: "startsWith (log_path dirname f) (logDir dirname)"
  by (simp add: startsWith_def log_path_def)








section \<open>Nothing outside the log directory\<close>

lemma inside_log_path: "inside_logDir dirname (log_path dirname f)"
  by (simp add: inside_logDir_def log_path_def startsWith_def)

lemma cleanup_file_frame:
  assumes abs: "isAbsolute dirname" and f: "plain_name f" and out: "\<not> inside_logDir dirname p"
  shows "map_of (fs (state (cleanup_file rt now (logDir dirname) acc f))) p = map_of (fs (state acc)) p"
proof (cases "endsWith f ''.json''")
  case False
  then show ?thesis by (simp add: cleanup_file_skip)
next
  case True
  have "path_join (logDir dirname) f = log_path dirname f"
    using path_join_child[OF abs proper_json_name[OF True]] f by (simp add: log_path_def plain_name_def)
  then have "p \<noteq> path_join (logDir dirname) f" using out inside_log_path by metis
  then show ?thesis by (rule cleanup_file_other)
qed

lemma cleanup_fold_frame:
  assumes abs: "isAbsolute dirname" and out: "\<not> inside_logDir dirname p"
  shows "\<forall>f \<in> set fls. plain_name f \<Longrightarrow>
         map_of (fs (state (foldl (cleanup_file rt now (logDir dirname)) acc fls))) p = map_of (fs (state acc)) p"
proof (induction fls arbitrary: acc)
  case Nil then show ?case by simp
next
  case (Cons f fls)
  then show ?case using cleanup_file_frame[OF abs _ out, of f rt now acc] by simp
qed

lemma cleanupOldLogs_frame:
  assumes "isAbsolute dirname" "\<not> inside_logDir dirname p"
  shows "map_of (fs (fst (cleanupOldLogs rt now dirname st))) p = map_of (fs st) p"
  using cleanup_fold_frame[OF assms, of "readdirSync (fs st) (logDir dirname)" rt now
      "\<lparr>state = st, deletedCount = 0, deletedFiles = []\<rparr>"] readdirSync_plain
  by (auto simp: cleanupOldLogs_def Let_def)

lemma save_fs_cases:
  "fs (snd (save rt now dirname reqBody st)) = fs st \<or>
   (\<exists>name t files'. writeFileSync (fs st) (path_join (logDir dirname) (sanitize name @ ''.json'')) t = Inr files' \<and>
      (fs (snd (save rt now dirname reqBody st)) = files' \<or>
       (\<exists>st2. fs st2 = files' \<and> snd (save rt now dirname reqBody st) = fst (cleanupOldLogs rt now dirname st2))))"
proof (cases "status (fst (save rt now dirname reqBody st)) = 200")
  case True
  from save_ok[OF True] obtain logData name files' sortedLogs where
    "writeFileSync (fs st) (path_join (logDir dirname) (sanitize name @ ''.json''))
              (Json (dataToSave_of rt logData)) = Inr files'"
    "snd (save rt now dirname reqBody st) = fst (cleanupOldLogs rt now dirname (st\<lparr>fs := files', allLogs := sortedLogs\<rparr>))"
    by force
  moreover have "fs (st\<lparr>fs := files', allLogs := sortedLogs\<rparr>) = files'" by simp
  ultimately show ?thesis by blast
next
  case False
  then show ?thesis
    by (auto simp: save_def Let_def server_error_def error_response_def
        split: sum.splits option.splits json.splits if_splits)
qed

lemma save_frame:
  assumes abs: "isAbsolute dirname" and out: "\<not> inside_logDir dirname p"
  shows "map_of (fs (snd (save rt now dirname reqBody st))) p = map_of (fs st) p"
proof -
  have w: "map_of files' p = map_of (fs st) p"
    if "writeFileSync (fs st) (path_join (logDir dirname) (sanitize name @ ''.json'')) t = Inr files'"
    for name t files'
  proof -
    have "p \<noteq> path_join (logDir dirname) (sanitize name @ ''.json'')"
      using out inside_log_path filePath_eq[OF abs] by metis
    then show ?thesis using writeFileSync_at[OF that] by simp
  qed
  show ?thesis
    using save_fs_cases[of rt now dirname reqBody st] w cleanupOldLogs_frame[OF abs out]
    by (metis (no_types, lifting))
qed

lemma get_file_result:
  assumes abs: "isAbsolute dirname"
  shows "get_file dirname fileName st =
     (case map_of (fs st) (log_path dirname (sanitize fileName @ ''.json'')) of
        None \<Rightarrow> (error_response 404 ''Log file not found'', st)
      | Some n \<Rightarrow> if readable n then (\<lparr>status = 200, body = FileBody (content n)\<rparr>, st)
                  else server_error IOError st)"
  by (simp add: get_file_def Let_def filePath_eq[OF abs] startsWith_logDir existsSync_def readFileSync_def
      split: option.splits)

lemma delete_file_result:
  assumes abs: "isAbsolute dirname"
  shows "delete_file rt dirname fileName st =
     (case map_of (fs st) (log_path dirname (sanitize fileName @ ''.json'')) of
        None \<Rightarrow> (error_response 404 ''Log file not found'', st)
      | Some n \<Rightarrow>
          if removable n then
            (\<lparr>status = 200,
              body = JsonBody (JObj [(''success'', JBool True),
                       (''message'', JStr ''Log file deleted successfully'')])\<rparr>,
             loadLogsFromFiles rt dirname
               (st\<lparr>fs := filter (\<lambda>e. fst e \<noteq> log_path dirname (sanitize fileName @ ''.json'')) (fs st)\<rparr>))
          else server_error IOError st)"
  by (simp add: delete_file_def Let_def filePath_eq[OF abs] startsWith_logDir existsSync_def unlinkSync_def
      split: option.splits)


lemma status_error_response: "status (error_response c m) = c"
  by (simp add: error_response_def)

lemma status_server_error: "status (fst (server_error e st)) = 500"
  by (simp add: server_error_def error_response_def)

lemma get_file_status:
  assumes "isAbsolute dirname"
  shows "status (fst (get_file dirname fileName st)) \<in> {200, 404, 500}"
  by (simp add: get_file_result[OF assms] status_error_response status_server_error split: option.splits)

lemma delete_file_status:
  assumes "isAbsolute dirname"
  shows "status (fst (delete_file rt dirname fileName st)) \<in> {200, 404, 500}"
  by (simp add: delete_file_result[OF assms] status_error_response status_server_error split: option.splits)

text \<open>
  C10. For every file name, joining the sanitised name and \<^verbatim>\<open>.json\<close> to the log
  directory gives the file of that name directly inside the log directory. Hence the
  handlers of \<^verbatim>\<open>GET\<close> and \<^verbatim>\<open>DELETE\<close> never answer 403, and a save, which makes no
  such check, changes no file outside the log directory.
\<close>

theorem sanitized_path_inside_logDir:
  assumes "isAbsolute dirname"
  shows "let filePath = path_join (logDir dirname) (sanitize fileName @ ''.json'') in
      filePath = logDir dirname @ ''/'' @ sanitize fileName @ ''.json'' \<and>
      CHR ''/'' \<notin> set (sanitize fileName @ ''.json'') \<and>
      startsWith filePath (logDir dirname) \<and>
      status (fst (get_file dirname fileName st)) \<noteq> 403 \<and>
      status (fst (delete_file rt dirname fileName st)) \<noteq> 403 \<and>
      (\<forall>pathname r s. handle_GET dirname pathname st = Some (r, s) \<longrightarrow> status r \<noteq> 403) \<and>
      (\<forall>pathname r s. handle_DELETE rt dirname pathname st = Some (r, s) \<longrightarrow> status r \<noteq> 403) \<and>
      (\<forall>reqBody p. \<not> inside_logDir dirname p \<longrightarrow>
         map_of (fs (snd (save rt now dirname reqBody st))) p = map_of (fs st) p)"
proof -
  have p: "path_join (logDir dirname) (sanitize fileName @ ''.json'')
         = logDir dirname @ ''/'' @ sanitize fileName @ ''.json''"
    using filePath_eq[OF assms] by (simp add: log_path_def)
  have ns: "CHR ''/'' \<notin> set (sanitize fileName @ ''.json'')"
    using sanitized_plain[of fileName] by (simp add: plain_name_def)
  have sw: "startsWith (logDir dirname @ ''/'' @ sanitize fileName @ ''.json'') (logDir dirname)"
    by (simp add: startsWith_def)
  have g: "status (fst (get_file dirname f st)) \<noteq> 403" for f
    using get_file_status[OF assms, of f st] by auto
  have d: "status (fst (delete_file rt dirname f st)) \<noteq> 403" for f
    using delete_file_status[OF assms, of rt f st] by auto
  have hg: "\<forall>pathname r s. handle_GET dirname pathname st = Some (r, s) \<longrightarrow> status r \<noteq> 403"
  proof (intro allI impI)
    fix pathname r and s :: server
    assume h: "handle_GET dirname pathname st = Some (r, s)"
    then consider "(r, s) = get_logs st" | "(r, s) = get_list dirname st"
      | "(r, s) = get_file dirname (drop (length ''/api/logs/'') pathname) st"
      by (auto simp: handle_GET_def Let_def split: if_splits)
    then show "status r \<noteq> 403"
    proof cases
      case 1 then show ?thesis by (simp add: get_logs_def)
    next
      case 2 then show ?thesis by (auto simp: get_list_def Let_def)
    next
      case 3 then show ?thesis using g[of "drop (length ''/api/logs/'') pathname"] by (metis fst_conv)
    qed
  qed
  have hd: "\<forall>pathname r s. handle_DELETE rt dirname pathname st = Some (r, s) \<longrightarrow> status r \<noteq> 403"
  proof (intro allI impI)
    fix pathname r and s :: server
    assume h: "handle_DELETE rt dirname pathname st = Some (r, s)"
    then have "(r, s) = delete_file rt dirname (drop (length ''/api/logs/'') pathname) st"
      by (auto simp: handle_DELETE_def split: if_splits)
    then show "status r \<noteq> 403" using d[of "drop (length ''/api/logs/'') pathname"] by (metis fst_conv)
  qed
  show ?thesis
    unfolding Let_def p using ns sw g d hg hd save_frame[OF assms] by blast
qed

theorem sanitized_path_inside_logDir_witness:
  "isAbsolute app_dir \<and>
   path_join (logDir app_dir) (sanitize ''../../etc/passwd'' @ ''.json'') = ''/srv/app/log/______etc_passwd.json'' \<and>
   startsWith ''/srv/app/log/______etc_passwd.json'' (logDir app_dir) \<and>
   status (fst (get_file app_dir ''../../etc/passwd'' (fresh_server two_files))) \<noteq> 403"
proof -
  have h: "isAbsolute app_dir" by code_simp
  have e: "logDir app_dir @ ''/'' @ sanitize ''../../etc/passwd'' @ ''.json'' = ''/srv/app/log/______etc_passwd.json''"
    by code_simp
  from sanitized_path_inside_logDir[OF h, of "''../../etc/passwd''" "fresh_server two_files" node_rt jan15]
  have a: "path_join (logDir app_dir) (sanitize ''../../etc/passwd'' @ ''.json'')
             = logDir app_dir @ ''/'' @ sanitize ''../../etc/passwd'' @ ''.json''"
    and b: "startsWith (path_join (logDir app_dir) (sanitize ''../../etc/passwd'' @ ''.json'')) (logDir app_dir)"
    and c: "status (fst (get_file app_dir ''../../etc/passwd'' (fresh_server two_files))) \<noteq> 403"
    unfolding Let_def by blast+
  show ?thesis using h a b c unfolding e by simp
qed











end
